theory Spec2Isabelle
  imports
    Main
    "HOL-Library.Char_ord"
    "HOL-Library.List_Lexorder"
    "HOL-Library.Multiset"
begin

text \<open>
  A model of \<^verbatim>\<open>tn_compose_cli.py\<close>: the canonicalizer, the session manager with
  its retry, the job watcher and the reconciler, as functions on documents and on an
  explicit state of session, transport and effects; and the properties of them that
  the specification of the program lists.
\<close>

section \<open>Documents\<close>

text \<open>
  The values that \<^verbatim>\<open>yaml.safe_load\<close>, \<^verbatim>\<open>json.loads\<close> and the RPC
  client hand to the program: \<^verbatim>\<open>None\<close>, booleans, integers, strings, lists and
  dictionaries with string keys (the source types them \<^verbatim>\<open>Dict[str, Any]\<close>).
  \<open>POpaque\<close> stands for a scalar that \<^verbatim>\<open>json.dumps\<close> cannot serialise, such as
  the \<^verbatim>\<open>datetime.date\<close> that YAML builds from an unquoted date. Floats are left out.
  A dictionary is the list of its items in insertion order; Python keeps the keys of
  a dictionary distinct.
\<close>

datatype doc =
    PNone
  | PBool bool
  | PInt int
  | PStr string
  | POpaque nat
  | PList "doc list"
  | PDict "(string \<times> doc) list"

text \<open>Truth value testing, as \<^verbatim>\<open>if x:\<close>, \<^verbatim>\<open>not x\<close> and \<^verbatim>\<open>x or y\<close> do it.\<close>

fun truthy :: "doc \<Rightarrow> bool" where
  "truthy PNone = False"
| "truthy (PBool b) = b"
| "truthy (PInt i) = (i \<noteq> 0)"
| "truthy (PStr s) = (s \<noteq> [])"
| "truthy (POpaque n) = True"
| "truthy (PList xs) = (xs \<noteq> [])"
| "truthy (PDict kvs) = (kvs \<noteq> [])"

definition bool_int :: "bool \<Rightarrow> int" where
  "bool_int b = (if b then 1 else 0)"

text \<open>
  Python's \<^verbatim>\<open>==\<close>: \<^verbatim>\<open>True == 1\<close> and \<^verbatim>\<open>False == 0\<close> hold, lists are
  compared element by element, dictionaries by size and by the value under each key,
  whatever the insertion order.
\<close>

fun py_eq :: "doc \<Rightarrow> doc \<Rightarrow> bool" where
  "py_eq PNone y = (y = PNone)"
| "py_eq (PBool a) y =
     (case y of PBool b \<Rightarrow> a = b | PInt j \<Rightarrow> bool_int a = j | _ \<Rightarrow> False)"
| "py_eq (PInt i) y =
     (case y of PBool b \<Rightarrow> i = bool_int b | PInt j \<Rightarrow> i = j | _ \<Rightarrow> False)"
| "py_eq (PStr s) y = (y = PStr s)"
| "py_eq (POpaque n) y = (y = POpaque n)"
| "py_eq (PList xs) y = (case y of PList ys \<Rightarrow> list_all2 py_eq xs ys | _ \<Rightarrow> False)"
| "py_eq (PDict kvs) y =
     (case y of
        PDict kws \<Rightarrow>
          length kvs = length kws \<and>
          list_all (\<lambda>(k, v). case map_of kws k of None \<Rightarrow> False | Some w \<Rightarrow> py_eq v w) kvs
      | _ \<Rightarrow> False)"

definition py_ne :: "doc \<Rightarrow> doc \<Rightarrow> bool" where
  "py_ne a b = (\<not> py_eq a b)"

text \<open>
  \<^verbatim>\<open>obj[k]\<close> for a key of \<open>obj\<close>, and \<^verbatim>\<open>obj.get(k)\<close> for any key: the value
  under the key, \<^verbatim>\<open>None\<close> where \<^verbatim>\<open>get\<close> finds none.
\<close>

definition getitem :: "(string \<times> doc) list \<Rightarrow> string \<Rightarrow> doc" where
  "getitem kvs k = (case map_of kvs k of Some v \<Rightarrow> v | None \<Rightarrow> PNone)"

section \<open>Serialisation: \<^verbatim>\<open>json.dumps(v, sort_keys=True)\<close>\<close>

text \<open>
  The text \<^verbatim>\<open>json.dumps\<close> writes with its default separators and
  \<^verbatim>\<open>ensure_ascii\<close>; \<open>None\<close> when it raises \<^verbatim>\<open>TypeError\<close>. A character is
  the code point below 256 of its number.
\<close>

fun str_nat :: "nat \<Rightarrow> string" where
  "str_nat n =
     (if n < 10 then [char_of (48 + n)]
      else str_nat (n div 10) @ [char_of (48 + n mod 10)])"

declare str_nat.simps [simp del]

definition str_int :: "int \<Rightarrow> string" where
  "str_int i = (if i < 0 then CHR ''-'' # str_nat (nat (- i)) else str_nat (nat i))"

definition hex_digit :: "nat \<Rightarrow> char" where
  "hex_digit d = (if d < 10 then char_of (48 + d) else char_of (87 + d))"

definition escape_char :: "char \<Rightarrow> string" where
  "escape_char ch =
     (let n = (of_char ch :: nat) in
      if n = 34 then [CHR 0x5C, CHR 0x22]
      else if n = 92 then [CHR 0x5C, CHR 0x5C]
      else if n = 10 then [CHR 0x5C, CHR ''n'']
      else if n = 13 then [CHR 0x5C, CHR ''r'']
      else if n = 9 then [CHR 0x5C, CHR ''t'']
      else if n = 8 then [CHR 0x5C, CHR ''b'']
      else if n = 12 then [CHR 0x5C, CHR ''f'']
      else if n < 32 \<or> 126 < n
      then [CHR 0x5C, CHR ''u'', CHR ''0'', CHR ''0'', hex_digit (n div 16), hex_digit (n mod 16)]
      else [ch])"

definition encode_str :: "string \<Rightarrow> string" where
  "encode_str s = [CHR 0x22] @ concat (map escape_char s) @ [CHR 0x22]"

fun join :: "string \<Rightarrow> string list \<Rightarrow> string" where
  "join sep [] = []"
| "join sep [s] = s"
| "join sep (s # t # ss) = s @ sep @ join sep (t # ss)"

fun those_opt :: "'a option list \<Rightarrow> 'a list option" where
  "those_opt [] = Some []"
| "those_opt (None # xs) = None"
| "those_opt (Some x # xs) =
     (case those_opt xs of None \<Rightarrow> None | Some ys \<Rightarrow> Some (x # ys))"

fun json_dumps :: "doc \<Rightarrow> string option" where
  "json_dumps PNone = Some ''null''"
| "json_dumps (PBool b) = Some (if b then ''true'' else ''false'')"
| "json_dumps (PInt i) = Some (str_int i)"
| "json_dumps (PStr s) = Some (encode_str s)"
| "json_dumps (POpaque n) = None"
| "json_dumps (PList xs) =
     (case those_opt (map json_dumps xs) of
        None \<Rightarrow> None
      | Some ss \<Rightarrow> Some (''['' @ join '', '' ss @ '']''))"
| "json_dumps (PDict kvs) =
     (case those_opt (map (\<lambda>(k, v). case json_dumps v of
                                       None \<Rightarrow> None
                                     | Some s \<Rightarrow> Some (encode_str k @ '': '' @ s))
                        (sort_key fst kvs)) of
        None \<Rightarrow> None
      | Some ss \<Rightarrow> Some (''{'' @ join '', '' ss @ ''}''))"

section \<open>Canonicalizer\<close>

text \<open>
  \<^verbatim>\<open>canonicalize\<close>: a dictionary is rebuilt from its sorted keys, each value
  canonicalized. A list is first sorted by the serialisation of its elements as they
  are (\<^verbatim>\<open>sorted\<close> computes every key before it compares, and is stable), then each
  element is canonicalized; when a key raises, the \<^verbatim>\<open>except\<close> branch keeps the order
  of the list. Strings compare by code point: the order of \<open>Char_ord\<close> and
  \<open>List_Lexorder\<close>.
\<close>

lemma size_map_of: "map_of kvs k = Some v \<Longrightarrow> size v < size (PDict kvs)"
  by (induction kvs) (auto split: if_splits)

lemma size_getitem:
  assumes "k \<in> set (map fst kvs)"
  shows "size (getitem kvs k) < size (PDict kvs)"
proof -
  from assms obtain v where "map_of kvs k = Some v"
    by (metis map_of_eq_None_iff not_Some_eq set_map)
  then show ?thesis
    using size_map_of [of kvs k v] by (simp add: getitem_def)
qed

function canonicalize :: "doc \<Rightarrow> doc" where
  "canonicalize (PDict kvs) =
     PDict (map (\<lambda>k. (k, canonicalize (getitem kvs k))) (sort (map fst kvs)))"
| "canonicalize (PList xs) =
     (if list_all (\<lambda>v. json_dumps v \<noteq> None) xs
      then PList (map canonicalize (sort_key (\<lambda>v. the (json_dumps v)) xs))
      else PList (map canonicalize xs))"
| "canonicalize PNone = PNone"
| "canonicalize (PBool b) = PBool b"
| "canonicalize (PInt i) = PInt i"
| "canonicalize (PStr s) = PStr s"
| "canonicalize (POpaque n) = POpaque n"
  by pat_completeness auto
termination
proof (relation "measure size")
  show "wf (measure size)" by simp
next
  fix kvs :: "(string \<times> doc) list" and k
  assume "k \<in> set (sort (map fst kvs))"
  then have "k \<in> set (map fst kvs)" by simp
  then show "(getitem kvs k, PDict kvs) \<in> measure size"
    using size_getitem by simp
next
  fix xs :: "doc list" and x
  assume "x \<in> set (sort_key (\<lambda>v. the (json_dumps v)) xs)"
  then have "x \<in> set xs" by simp
  then show "(x, PList xs) \<in> measure size"
    by (induction xs) auto
next
  fix xs :: "doc list" and x
  assume "x \<in> set xs"
  then show "(x, PList xs) \<in> measure size"
    by (induction xs) auto
qed

definition json_equivalent :: "doc \<Rightarrow> doc \<Rightarrow> bool" where
  "json_equivalent a b = py_eq (canonicalize a) (canonicalize b)"

section \<open>Effects\<close>

text \<open>
  What a function of the program can do besides returning: raise, or wait for the
  transport for ever (\<open>Blocked\<close>). An exception raised by the transport carries the
  text \<^verbatim>\<open>str(e)\<close> gives; the exceptions the program raises itself carry what their
  message is built from. Of the transport's exceptions only \<open>Exception\<close> is caught by
  \<^verbatim>\<open>except Exception\<close>; \<open>KeyboardInterrupt\<close> is not.
\<close>

datatype reason =
    LoginFailed
  | DockerUnconfigured
  | DockerNotHealthy doc
  | UnsupportedSuffix string
  | InvalidContent string
  | NotTopLevelDict string

datatype exn =
    Exception string
  | KeyboardInterrupt
  | SystemExit reason
  | ValueError reason
  | OSError
  | AttributeError
  | TypeError

datatype 'a outcome = Return 'a | Raise exn | Blocked

text \<open>
  The lines the program prints, each with the values its f-string formats:
  the job status line (job id, state, percent, description), the log excerpt, the two
  final lines of a job, and the decision lines of the reconciler.
\<close>

datatype line =
    JobStatus doc doc doc doc
  | JobLogs doc doc
  | JobFinished doc
  | JobEnded doc doc doc
  | Update string
  | Skip string
  | Create string
  | CreateCatalog string

text \<open>
  What the program does to the world, in order: \<^verbatim>\<open>Client(uri)\<close>,
  \<^verbatim>\<open>__enter__()\<close>, \<^verbatim>\<open>__exit__(None, None, None)\<close>, an RPC on the client,
  \<^verbatim>\<open>time.sleep\<close> (in seconds; the program only sleeps whole seconds by default) and
  \<^verbatim>\<open>print\<close>.
\<close>

datatype event =
    Connect string
  | Enter
  | Exit
  | Rpc string "doc list"
  | Sleep nat
  | Print line

text \<open>
  The transport is a black box: the answers it will give to the requests made of it,
  one after the other, are the \<open>script\<close>. An answer is a value, an exception with
  its message, or an interrupt; when the script has run out the transport never
  answers. For \<open>Connect\<close>, \<open>Enter\<close> and \<open>Exit\<close> the value of a \<open>Reply\<close> is
  not looked at.
\<close>

datatype reply = Reply doc | Fail string | Interrupt

datatype handle = Client string

record TNSession =
  uri :: string
  user :: "string option"
  password :: "string option"
  api_key :: "string option"
  client :: "handle option"

text \<open>
  The state: the global \<^verbatim>\<open>SESSION\<close> (its field \<^verbatim>\<open>_c\<close> is \<open>client\<close>), the
  answers the transport still has to give, and the effects so far.
\<close>

record state =
  SESSION :: TNSession
  script :: "reply list"
  trace :: "event list"

type_synonym 'a prog = "state \<Rightarrow> 'a outcome \<times> state"

definition ret :: "'a \<Rightarrow> 'a prog" where
  "ret v st = (Return v, st)"

definition raise :: "exn \<Rightarrow> 'a prog" where
  "raise e st = (Raise e, st)"

definition bind :: "'a prog \<Rightarrow> ('a \<Rightarrow> 'b prog) \<Rightarrow> 'b prog" where
  "bind m f st =
     (case m st of
        (Return v, st') \<Rightarrow> f v st'
      | (Raise e, st') \<Rightarrow> (Raise e, st')
      | (Blocked, st') \<Rightarrow> (Blocked, st'))"

definition lift :: "exn + 'a \<Rightarrow> 'a prog" where
  "lift r st = (case r of Inl e \<Rightarrow> (Raise e, st) | Inr v \<Rightarrow> (Return v, st))"

definition emit :: "event \<Rightarrow> unit prog" where
  "emit ev st = (Return (), st\<lparr>trace := trace st @ [ev]\<rparr>)"

definition transport :: "event \<Rightarrow> doc prog" where
  "transport ev st =
     (case script st of
        [] \<Rightarrow> (Blocked, st\<lparr>trace := trace st @ [ev]\<rparr>)
      | Reply v # rs \<Rightarrow> (Return v, st\<lparr>script := rs, trace := trace st @ [ev]\<rparr>)
      | Fail msg # rs \<Rightarrow> (Raise (Exception msg), st\<lparr>script := rs, trace := trace st @ [ev]\<rparr>)
      | Interrupt # rs \<Rightarrow> (Raise KeyboardInterrupt, st\<lparr>script := rs, trace := trace st @ [ev]\<rparr>))"

definition set_client :: "handle option \<Rightarrow> unit prog" where
  "set_client h st = (Return (), st\<lparr>SESSION := (SESSION st)\<lparr>client := h\<rparr>\<rparr>)"

text \<open>\<^verbatim>\<open>obj.get(k)\<close>: only a dictionary has the method.\<close>

definition py_get :: "doc \<Rightarrow> string \<Rightarrow> doc prog" where
  "py_get obj k = (case obj of PDict kvs \<Rightarrow> ret (getitem kvs k) | _ \<Rightarrow> raise AttributeError)"

definition is_str :: "doc \<Rightarrow> bool" where
  "is_str d = (case d of PStr s \<Rightarrow> True | _ \<Rightarrow> False)"

definition is_dict :: "doc \<Rightarrow> bool" where
  "is_dict d = (case d of PDict kvs \<Rightarrow> True | _ \<Rightarrow> False)"

section \<open>Session Manager\<close>

text \<open>
  \<^verbatim>\<open>TNSession.close\<close>: the \<^verbatim>\<open>finally\<close> clause forgets the client also when
  \<^verbatim>\<open>__exit__\<close> raises.
\<close>

definition TNSession_close :: "unit prog" where
  "TNSession_close st =
     (case client (SESSION st) of
        None \<Rightarrow> (Return (), st)
      | Some h \<Rightarrow>
          (case transport Exit st of
             (Return v, st') \<Rightarrow> set_client None st'
           | (Raise e, st') \<Rightarrow> (Raise e, snd (set_client None st'))
           | (Blocked, st') \<Rightarrow> (Blocked, st')))"

definition opt_doc :: "string option \<Rightarrow> doc" where
  "opt_doc s = (case s of None \<Rightarrow> PNone | Some t \<Rightarrow> PStr t)"

definition login :: "TNSession \<Rightarrow> event" where
  "login s =
     (if truthy (opt_doc (api_key s))
      then Rpc ''auth.login_with_api_key'' [opt_doc (api_key s)]
      else Rpc ''auth.login'' [opt_doc (user s), opt_doc (password s)])"

text \<open>
  \<^verbatim>\<open>TNSession.open\<close>. When \<^verbatim>\<open>Client(uri)\<close> raises, \<^verbatim>\<open>_c\<close> is still
  \<^verbatim>\<open>None\<close>; when \<^verbatim>\<open>__enter__\<close> or the login raises, it is already set.
\<close>

definition TNSession_open :: "unit prog" where
  "TNSession_open st =
     (case client (SESSION st) of
        Some h \<Rightarrow> (Return (), st)
      | None \<Rightarrow>
          bind (transport (Connect (uri (SESSION st)))) (\<lambda>_.
          bind (set_client (Some (Client (uri (SESSION st))))) (\<lambda>_.
          bind (transport Enter) (\<lambda>_.
          bind (transport (login (SESSION st))) (\<lambda>ok.
          if \<not> truthy ok
          then bind TNSession_close (\<lambda>_. raise (SystemExit LoginFailed))
          else ret ())))) st)"

text \<open>\<^verbatim>\<open>str.lower\<close> on code points below 256, and \<^verbatim>\<open>sub in s\<close>.\<close>

definition lower_char :: "char \<Rightarrow> char" where
  "lower_char ch =
     (let n = (of_char ch :: nat) in
      if (65 \<le> n \<and> n \<le> 90) \<or> (192 \<le> n \<and> n \<le> 222 \<and> n \<noteq> 215)
      then char_of (n + 32) else ch)"

definition lower :: "string \<Rightarrow> string" where
  "lower s = map lower_char s"

fun contains :: "string \<Rightarrow> string \<Rightarrow> bool" where
  "contains sub [] = (sub = [])"
| "contains sub (ch # s) = (take (length sub) (ch # s) = sub \<or> contains sub s)"

definition transient :: "string \<Rightarrow> bool" where
  "transient msg =
     (contains ''rate'' msg \<or> contains ''ratelimit'' msg \<or>
      contains ''broken pipe'' msg \<or> contains ''closed'' msg)"

text \<open>
  \<^verbatim>\<open>TNSession.call\<close>. \<open>call_loop\<close> is the \<^verbatim>\<open>for attempt in range(_retries + 1)\<close>
  loop with the attempts that are left as its last argument but one; when none is left
  the function body ends, and Python returns \<^verbatim>\<open>None\<close>.
\<close>

fun call_loop :: "string \<Rightarrow> doc list \<Rightarrow> nat \<Rightarrow> nat \<Rightarrow> nat \<Rightarrow> doc prog" where
  "call_loop method params backoff attempt 0 st = (Return PNone, st)"
| "call_loop method params backoff attempt (Suc n) st =
     (case transport (Rpc method params) st of
        (Raise (Exception m), st') \<Rightarrow>
          (let msg = lower m in
           if transient msg
           then bind (emit (Sleep (backoff * (attempt + 1)))) (\<lambda>_.
                bind TNSession_close (\<lambda>_.
                bind TNSession_open (\<lambda>_.
                call_loop method params backoff (attempt + 1) n))) st'
           else (Raise (Exception m), st'))
      | (r, st') \<Rightarrow> (r, st'))"

definition TNSession_call :: "string \<Rightarrow> doc list \<Rightarrow> nat \<Rightarrow> nat \<Rightarrow> doc prog" where
  "TNSession_call method params retries backoff =
     bind TNSession_open (\<lambda>_. call_loop method params backoff 0 (retries + 1))"

section \<open>Readiness gate\<close>

definition validate_truenas :: "unit prog" where
  "validate_truenas =
     bind (TNSession_call ''docker.status'' [] 1 1) (\<lambda>status.
     bind (py_get status ''status'') (\<lambda>st.
     if py_eq st (PStr ''RUNNING'') then ret ()
     else if py_eq st (PStr ''UNCONFIGURED'') then raise (SystemExit DockerUnconfigured)
     else raise (SystemExit (DockerNotHealthy st))))"

section \<open>Job Watcher\<close>

definition terminal :: "doc \<Rightarrow> bool" where
  "terminal state =
     (py_eq state (PStr ''SUCCESS'') \<or> py_eq state (PStr ''FAILED'') \<or>
      py_eq state (PStr ''ABORTED''))"

text \<open>
  One round of the \<^verbatim>\<open>while True\<close> loop of \<^verbatim>\<open>watch_job\<close>, from the job record
  to the \<^verbatim>\<open>return\<close> (\<open>Done\<close>) or to the end of the round (\<open>Again\<close>, with the new
  \<^verbatim>\<open>last_percent\<close>, \<^verbatim>\<open>last_desc\<close> and \<^verbatim>\<open>last_excerpt\<close>). The status line
  evaluates \<^verbatim>\<open>'- ' + desc\<close> when \<^verbatim>\<open>desc\<close> is true, a \<^verbatim>\<open>TypeError\<close> unless it is
  a string.
\<close>

datatype watch = Done doc | Again doc doc doc

definition watch_body :: "doc \<Rightarrow> doc \<Rightarrow> doc \<Rightarrow> doc \<Rightarrow> doc \<Rightarrow> watch prog" where
  "watch_body job_id last_percent last_desc last_excerpt job =
     bind (py_get job ''state'') (\<lambda>state.
     bind (py_get job ''progress'') (\<lambda>p.
     bind (py_get (if truthy p then p else PDict []) ''percent'') (\<lambda>pct.
     bind (py_get (if truthy p then p else PDict []) ''description'') (\<lambda>desc.
     bind (py_get job ''logs_excerpt'') (\<lambda>logs.
     bind (py_get job ''error'') (\<lambda>e.
     bind (if truthy e then ret e else py_get job ''result_encoding_error'') (\<lambda>err.
     bind (if py_ne pct last_percent \<or> py_ne desc last_desc
           then (if truthy desc \<and> \<not> is_str desc then raise TypeError
                 else bind (emit (Print (JobStatus job_id state pct desc))) (\<lambda>_. ret (pct, desc)))
           else ret (last_percent, last_desc)) (\<lambda>(last_percent', last_desc').
     bind (if truthy logs \<and> py_ne logs last_excerpt
           then bind (emit (Print (JobLogs job_id logs))) (\<lambda>_. ret logs)
           else ret last_excerpt) (\<lambda>last_excerpt'.
     if terminal state
     then bind (emit (Print (if py_eq state (PStr ''SUCCESS'') then JobFinished job_id
                             else JobEnded job_id state err))) (\<lambda>_. ret (Done job))
     else ret (Again last_percent' last_desc' last_excerpt'))))))))))"

definition get_jobs_params :: "doc \<Rightarrow> bool \<Rightarrow> doc list" where
  "get_jobs_params job_id raw_result =
     [PList [PList [PStr ''id'', PStr ''='', job_id]],
      PDict [(''get'', PBool True), (''extra'', PDict [(''raw_result'', PBool raw_result)])]]"

subsection \<open>Every poll that returns uses up an answer of the transport\<close>

lemma bind_script_le:
  assumes "\<And>st. length (script (snd (m st))) \<le> length (script st)"
    and "\<And>v st. length (script (snd (f v st))) \<le> length (script st)"
  shows "length (script (snd (bind m f st))) \<le> length (script st)"
proof (cases "m st")
  case (Pair r st')
  have le: "length (script st') \<le> length (script st)"
    using assms(1) [of st] Pair by simp
  show ?thesis
  proof (cases r)
    case (Return v)
    then show ?thesis
      using Pair le assms(2) [of v st'] by (simp add: bind_def)
  next
    case (Raise e)
    then show ?thesis using Pair le by (simp add: bind_def)
  next
    case Blocked
    then show ?thesis using Pair le by (simp add: bind_def)
  qed
qed

lemma bind_script_eq:
  assumes "\<And>st. script (snd (m st)) = script st"
    and "\<And>v st. script (snd (f v st)) = script st"
  shows "script (snd (bind m f st)) = script st"
proof (cases "m st")
  case (Pair r st')
  have eq: "script st' = script st"
    using assms(1) [of st] Pair by simp
  show ?thesis
    using Pair eq assms(2) [of _ st'] by (cases r) (simp_all add: bind_def)
qed

lemma transport_script_le: "length (script (snd (transport ev st))) \<le> length (script st)"
  by (simp add: transport_def split: list.splits reply.splits)

lemma emit_script [simp]: "script (snd (emit ev st)) = script st"
  by (simp add: emit_def)

lemma set_client_script [simp]: "script (snd (set_client h st)) = script st"
  by (simp add: set_client_def)

lemma ret_script [simp]: "script (snd (ret v st)) = script st"
  by (simp add: ret_def)

lemma raise_script [simp]: "script (snd (raise e st)) = script st"
  by (simp add: raise_def)

lemma py_get_state [simp]: "snd (py_get obj k st) = st"
  by (simp add: py_get_def ret_def raise_def split: doc.splits)

lemma close_script_le: "length (script (snd (TNSession_close st))) \<le> length (script st)"
proof (cases "client (SESSION st)")
  case None
  then show ?thesis by (simp add: TNSession_close_def)
next
  case (Some h)
  obtain r st' where t: "transport Exit st = (r, st')" by (cases "transport Exit st")
  then have "length (script st') \<le> length (script st)"
    using transport_script_le [of Exit st] by simp
  then show ?thesis
    using Some t by (cases r) (simp_all add: TNSession_close_def set_client_def)
qed

lemma open_script_le: "length (script (snd (TNSession_open st))) \<le> length (script st)"
proof (cases "client (SESSION st)")
  case (Some h)
  then show ?thesis by (simp add: TNSession_open_def)
next
  case None
  then show ?thesis
    unfolding TNSession_open_def
    by (simp add: bind_script_le transport_script_le close_script_le)
qed

lemma call_loop_script_le:
  "length (script (snd (call_loop method params backoff attempt n st))) \<le> length (script st)"
proof (induction n arbitrary: attempt st)
  case 0
  then show ?case by simp
next
  case (Suc n)
  obtain r st' where t: "transport (Rpc method params) st = (r, st')"
    by (cases "transport (Rpc method params) st")
  then have le: "length (script st') \<le> length (script st)"
    using transport_script_le [of "Rpc method params" st] by simp
  have retry: "length (script (snd (
      bind (emit (Sleep (backoff * (attempt + 1)))) (\<lambda>_.
      bind TNSession_close (\<lambda>_.
      bind TNSession_open (\<lambda>_.
      call_loop method params backoff (attempt + 1) n))) st'))) \<le> length (script st')"
    by (intro bind_script_le) (simp_all add: close_script_le open_script_le Suc.IH)
  show ?case
    using t le retry by (auto simp: Let_def split: outcome.splits exn.splits)
qed

lemma call_loop_Return_lt:
  assumes "call_loop method params backoff attempt (Suc n) st = (Return v, st')"
  shows "length (script st') < length (script st)"
proof -
  obtain r st1 where t: "transport (Rpc method params) st = (r, st1)"
    by (cases "transport (Rpc method params) st")
  have ne: "script st \<noteq> []"
    using assms by (auto simp: transport_def)
  have lt: "length (script st1) < length (script st)"
    using t ne by (auto simp: transport_def split: list.splits reply.splits)
  have retry: "length (script (snd (
      bind (emit (Sleep (backoff * (attempt + 1)))) (\<lambda>_.
      bind TNSession_close (\<lambda>_.
      bind TNSession_open (\<lambda>_.
      call_loop method params backoff (attempt + 1) n))) st1))) \<le> length (script st1)"
    by (intro bind_script_le) (simp_all add: close_script_le open_script_le call_loop_script_le)
  show ?thesis
    using assms t lt retry
    by (auto simp: Let_def split: outcome.splits exn.splits if_splits)
qed

lemma call_Return_lt:
  assumes "TNSession_call method params retries backoff st = (Return v, st')"
  shows "length (script st') < length (script st)"
proof -
  obtain r st1 where o: "TNSession_open st = (r, st1)" by (cases "TNSession_open st")
  then have le: "length (script st1) \<le> length (script st)"
    using open_script_le [of st] by simp
  from assms o have "call_loop method params backoff 0 (Suc retries) st1 = (Return v, st')"
    by (cases r) (simp_all add: TNSession_call_def bind_def)
  then show ?thesis
    using call_loop_Return_lt le by fastforce
qed

lemma watch_body_script:
  "script (snd (watch_body job_id last_percent last_desc last_excerpt job st)) = script st"
  unfolding watch_body_def
  by (intro bind_script_eq) (simp_all add: bind_script_eq split: prod.splits)

subsection \<open>The loop\<close>

text \<open>
  \<^verbatim>\<open>watch_job\<close>: poll, look at the record, sleep, again. The loop ends when a round
  returns, when something raises, or when the transport stops answering.
\<close>

function watch_loop :: "doc \<Rightarrow> nat \<Rightarrow> bool \<Rightarrow> doc \<Rightarrow> doc \<Rightarrow> doc \<Rightarrow> doc prog" where
  "watch_loop job_id poll raw_result last_percent last_desc last_excerpt st =
     (case TNSession_call ''core.get_jobs'' (get_jobs_params job_id raw_result) 1 1 st of
        (Return job, st1) \<Rightarrow>
          (case watch_body job_id last_percent last_desc last_excerpt job st1 of
             (Return (Done j), st2) \<Rightarrow> (Return j, st2)
           | (Return (Again last_percent' last_desc' last_excerpt'), st2) \<Rightarrow>
               (case emit (Sleep poll) st2 of
                  (r, st3) \<Rightarrow>
                    watch_loop job_id poll raw_result last_percent' last_desc' last_excerpt' st3)
           | (Raise e, st2) \<Rightarrow> (Raise e, st2)
           | (Blocked, st2) \<Rightarrow> (Blocked, st2))
      | (Raise e, st1) \<Rightarrow> (Raise e, st1)
      | (Blocked, st1) \<Rightarrow> (Blocked, st1))"
  by pat_completeness auto
termination
proof (relation "measure (\<lambda>(job_id, poll, raw_result, lp, ld, le, st). length (script st))")
  show "wf (measure (\<lambda>(job_id, poll, raw_result, lp, ld, le, st). length (script st)))"
    by simp
next
  fix job_id :: doc and poll :: nat and raw_result :: bool
    and last_percent last_desc last_excerpt :: doc and st :: state
    and x :: "doc outcome" and y :: state and x1 :: doc
    and xa :: "watch outcome" and ya :: state and x1a :: watch
    and x21 x22 x23 :: doc and xb :: "unit outcome" and yb :: state
  assume c: "(x, y) = TNSession_call ''core.get_jobs'' (get_jobs_params job_id raw_result) 1 1 st"
    and r: "x = Return x1"
    and b: "(xa, ya) = watch_body job_id last_percent last_desc last_excerpt x1 y"
    and e: "(xb, yb) = emit (Sleep poll) ya"
  have "length (script y) < length (script st)"
    using c r call_Return_lt [of "''core.get_jobs''" _ 1 1 st x1 y] by simp
  moreover have "script ya = script y"
    using b watch_body_script [of job_id last_percent last_desc last_excerpt x1 y]
    by (metis snd_conv)
  moreover have "script yb = script ya"
    using e emit_script [of "Sleep poll" ya] by (metis snd_conv)
  ultimately show "((job_id, poll, raw_result, x21, x22, x23, yb),
      job_id, poll, raw_result, last_percent, last_desc, last_excerpt, st)
    \<in> measure (\<lambda>(job_id, poll, raw_result, lp, ld, le, st). length (script st))"
    by simp
qed

declare watch_loop.simps [simp del]
declare call_loop.simps [simp del]

definition watch_job :: "doc \<Rightarrow> nat \<Rightarrow> bool \<Rightarrow> doc prog" where
  "watch_job job_id poll raw_result = watch_loop job_id poll raw_result PNone PNone PNone"

section \<open>Reconciler\<close>

definition update_app :: "string \<Rightarrow> bool \<Rightarrow> doc \<Rightarrow> unit prog" where
  "update_app app_name compose desired_spec =
     bind (TNSession_call ''app.update''
             [PStr app_name,
              if compose then PDict [(''custom_compose_config'', desired_spec)]
              else PDict [(''values'', PDict [])]] 1 1) (\<lambda>job_id.
     bind (watch_job job_id 1 True) (\<lambda>_. ret ()))"

text \<open>
  A file of the directory, as \<^verbatim>\<open>pathlib\<close> and the parsers show it to the program:
  its name, stem and suffix, whether it is a regular file, and what reading and parsing
  it gives (the parser of its format raises on \<open>Malformed\<close> text).
\<close>

datatype contents = Unreadable | Malformed | Parsed doc

record path =
  path_name :: string
  stem :: string
  suffix :: string
  is_file :: bool
  contents :: contents

definition validate_and_normalize :: "path \<Rightarrow> exn + doc" where
  "validate_and_normalize p =
     (case contents p of
        Unreadable \<Rightarrow> Inl OSError
      | Malformed \<Rightarrow>
          if lower (suffix p) = ''.yaml'' \<or> lower (suffix p) = ''.yml''
             \<or> lower (suffix p) = ''.json''
          then Inl (ValueError (InvalidContent (path_name p)))
          else Inl (ValueError (UnsupportedSuffix (path_name p)))
      | Parsed data \<Rightarrow>
          if lower (suffix p) = ''.yaml'' \<or> lower (suffix p) = ''.yml''
             \<or> lower (suffix p) = ''.json''
          then (if is_dict data then Inr data
                else Inl (ValueError (NotTopLevelDict (path_name p))))
          else Inl (ValueError (UnsupportedSuffix (path_name p))))"

definition query_params :: "string \<Rightarrow> doc list" where
  "query_params app_name =
     [PList [PList [PStr ''name'', PStr ''='', PStr app_name]], PDict [(''limit'', PInt 1)]]"

definition deploy_app :: "path \<Rightarrow> bool \<Rightarrow> unit prog" where
  "deploy_app file_path is_compose =
     bind (lift (validate_and_normalize file_path)) (\<lambda>desired_config.
     bind (TNSession_call ''app.query'' (query_params (stem file_path)) 1 1) (\<lambda>app_exists.
     if truthy app_exists
     then bind (TNSession_call ''app.config'' [PStr (stem file_path)] 1 1) (\<lambda>current_config.
          if json_equivalent desired_config current_config
          then emit (Print (Skip (stem file_path)))
          else bind (emit (Print (Update (stem file_path)))) (\<lambda>_.
               update_app (stem file_path) is_compose desired_config))
     else if is_compose
     then bind (emit (Print (Create (stem file_path)))) (\<lambda>_.
          bind (TNSession_call ''app.create''
                  [PDict [(''app_name'', PStr (stem file_path)), (''custom_app'', PBool True),
                          (''custom_compose_config'', desired_config)]] 1 1) (\<lambda>job_id.
          bind (watch_job job_id 1 True) (\<lambda>_. ret ())))
     else bind (emit (Print (CreateCatalog (stem file_path)))) (\<lambda>_.
          bind (TNSession_call ''app.create'' [desired_config] 1 1) (\<lambda>job_id.
          bind (watch_job job_id 1 True) (\<lambda>_. ret ())))))"

text \<open>
  The script's last lines: open the session, check the runtime, then every regular
  file of the directory in the order of \<^verbatim>\<open>sorted\<close>.
\<close>

fun deploy_all :: "path list \<Rightarrow> unit prog" where
  "deploy_all [] = ret ()"
| "deploy_all (file # files) =
     (if is_file file then bind (deploy_app file True) (\<lambda>_. deploy_all files)
      else deploy_all files)"

definition main :: "path list \<Rightarrow> unit prog" where
  "main compose_dir =
     bind TNSession_open (\<lambda>_.
     bind validate_truenas (\<lambda>_.
     deploy_all (sort_key path_name compose_dir)))"

section \<open>Well-formed documents\<close>

text \<open>
  Python keeps the keys of a dictionary distinct, at every depth.
\<close>

fun distinct_keys :: "doc \<Rightarrow> bool" where
  "distinct_keys (PList xs) = list_all distinct_keys xs"
| "distinct_keys (PDict kvs) =
     (distinct (map fst kvs) \<and> list_all distinct_keys (map snd kvs))"
| "distinct_keys d = True"

text \<open>
  Two documents that differ at most in the order of the keys of their dictionaries, at
  any depth: the same scalars, lists with the same elements in the same order,
  dictionaries with the same keys.
\<close>

fun rekeyed :: "doc \<Rightarrow> doc \<Rightarrow> bool" where
  "rekeyed (PList xs) y = (case y of PList ys \<Rightarrow> list_all2 rekeyed xs ys | _ \<Rightarrow> False)"
| "rekeyed (PDict kvs) y =
     (case y of
        PDict kws \<Rightarrow>
          length kvs = length kws \<and>
          list_all (\<lambda>(k, v). case map_of kws k of None \<Rightarrow> False | Some w \<Rightarrow> rekeyed v w) kvs
      | _ \<Rightarrow> False)"
| "rekeyed x y = (x = y)"

section \<open>Reading the trace and the job records\<close>

text \<open>The parameters of the RPCs made with a method, in the order they were made.\<close>

fun calls_to :: "string \<Rightarrow> event list \<Rightarrow> doc list list" where
  "calls_to m [] = []"
| "calls_to m (Rpc m' ps # evs) = (if m' = m then ps # calls_to m evs else calls_to m evs)"
| "calls_to m (ev # evs) = calls_to m evs"

text \<open>The job status lines printed, in order.\<close>

fun status_lines :: "event list \<Rightarrow> line list" where
  "status_lines [] = []"
| "status_lines (Print (JobStatus i s p d) # evs) = JobStatus i s p d # status_lines evs"
| "status_lines (ev # evs) = status_lines evs"

text \<open>The fields the watcher reads of a job record that is a mapping.\<close>

definition field :: "doc \<Rightarrow> string \<Rightarrow> doc" where
  "field d k = (case d of PDict kvs \<Rightarrow> getitem kvs k | _ \<Rightarrow> PNone)"

definition job_state :: "doc \<Rightarrow> doc" where
  "job_state j = field j ''state''"

definition job_progress :: "doc \<Rightarrow> doc" where
  "job_progress j = (if truthy (field j ''progress'') then field j ''progress'' else PDict [])"

definition job_percent :: "doc \<Rightarrow> doc" where
  "job_percent j = field (job_progress j) ''percent''"

definition job_desc :: "doc \<Rightarrow> doc" where
  "job_desc j = field (job_progress j) ''description''"

definition job_logs :: "doc \<Rightarrow> doc" where
  "job_logs j = field j ''logs_excerpt''"

definition job_error :: "doc \<Rightarrow> doc" where
  "job_error j =
     (if truthy (field j ''error'') then field j ''error'' else field j ''result_encoding_error'')"

text \<open>
  A job record as the data model has it: a mapping whose \<^verbatim>\<open>progress\<close> is absent,
  \<^verbatim>\<open>None\<close> or a mapping, with a description that is absent, \<^verbatim>\<open>None\<close> or a string.
\<close>

definition job_record :: "doc \<Rightarrow> bool" where
  "job_record j =
     (is_dict j \<and>
      (field j ''progress'' = PNone \<or> is_dict (field j ''progress'')) \<and>
      (job_desc j = PNone \<or> is_str (job_desc j)))"

definition running :: "doc \<Rightarrow> bool" where
  "running j = (job_record j \<and> \<not> terminal (job_state j))"

text \<open>
  The status lines the spec asks for, in its words: a line for a record only when its
  percent or its description differs from the pair of the last line printed. Before
  the first line the pair is \<^verbatim>\<open>(None, None)\<close>.
\<close>

fun spec_status_lines :: "doc \<Rightarrow> doc \<Rightarrow> doc \<Rightarrow> doc list \<Rightarrow> line list" where
  "spec_status_lines job_id last_percent last_desc [] = []"
| "spec_status_lines job_id last_percent last_desc (j # js) =
     (if py_ne (job_percent j) last_percent \<or> py_ne (job_desc j) last_desc
      then JobStatus job_id (job_state j) (job_percent j) (job_desc j)
             # spec_status_lines job_id (job_percent j) (job_desc j) js
      else spec_status_lines job_id last_percent last_desc js)"

text \<open>The final summary line of a job: the success message, or state and error.\<close>

definition summary :: "doc \<Rightarrow> doc \<Rightarrow> line" where
  "summary job_id j =
     (if py_eq (job_state j) (PStr ''SUCCESS'') then JobFinished job_id
      else JobEnded job_id (job_state j) (job_error j))"

text \<open>
  What one round of the watcher prints for a job record: the status line when the pair
  has changed, the log excerpt when there is a new one, the summary line when the state
  is terminal.
\<close>

definition round_events :: "doc \<Rightarrow> doc \<Rightarrow> doc \<Rightarrow> doc \<Rightarrow> doc \<Rightarrow> event list" where
  "round_events job_id last_percent last_desc last_excerpt j =
     (if py_ne (job_percent j) last_percent \<or> py_ne (job_desc j) last_desc
      then [Print (JobStatus job_id (job_state j) (job_percent j) (job_desc j))] else [])
     @ (if truthy (job_logs j) \<and> py_ne (job_logs j) last_excerpt
        then [Print (JobLogs job_id (job_logs j))] else [])
     @ (if terminal (job_state j) then [Print (summary job_id j)] else [])"

text \<open>Example data: a session of user \<^verbatim>\<open>admin\<close>, and a job record.\<close>

definition admin_session :: "handle option \<Rightarrow> TNSession" where
  "admin_session h =
     \<lparr>uri = ''ws://nas/api/current'', user = Some ''admin'', password = Some ''secret'',
      api_key = None, client = h\<rparr>"

definition job_at :: "string \<Rightarrow> int \<Rightarrow> doc" where
  "job_at s p =
     PDict [(''id'', PInt 7), (''state'', PStr s), (''progress'', PDict [(''percent'', PInt p)])]"

definition web_yaml :: path where
  "web_yaml =
     \<lparr>path_name = ''web.yaml'', stem = ''web'', suffix = ''.yaml'', is_file = True,
      contents = Parsed (PDict [(''services'',
                   PDict [(''web'', PDict [(''image'', PStr ''nginx'')])])])\<rparr>"

section \<open>Properties of the canonicalizer\<close>

lemma map_of_tabulate:
  "k \<in> set ks \<Longrightarrow> map_of (map (\<lambda>k. (k, f k)) ks) k = Some (f k)"
  by (induction ks) auto

lemma getitem_Some: "map_of kvs k = Some v \<Longrightarrow> getitem kvs k = v"
  by (simp add: getitem_def)

subsection \<open>What holds of the comparison\<close>

text \<open>
  On documents of Python, \<^verbatim>\<open>json_equivalent\<close> is reflexive and symmetric, and the order
  of the keys of a dictionary, at any depth, does not change the canonical form.
\<close>

lemma list_all2_refl_on: "(\<And>x. x \<in> set xs \<Longrightarrow> R x x) \<Longrightarrow> list_all2 R xs xs"
  by (induction xs) auto

lemma py_eq_refl: "distinct_keys x \<Longrightarrow> py_eq x x"
proof (induction x)
  case (PList xs)
  then show ?case
    by (auto simp: list_all_iff intro: list_all2_refl_on)
next
  case (PDict kvs)
  have "case map_of kvs k of None \<Rightarrow> False | Some w \<Rightarrow> py_eq v w" if "(k, v) \<in> set kvs" for k v
  proof -
    have "map_of kvs k = Some v"
      using PDict.prems that by simp
    moreover have "py_eq v v"
      using PDict.IH [of "(k, v)" v] PDict.prems that by (auto simp: list_all_iff)
    ultimately show ?thesis by simp
  qed
  then show ?case
    by (auto simp: list_all_iff)
qed simp_all

lemma distinct_keys_getitem:
  "distinct_keys (PDict kvs) \<Longrightarrow> distinct_keys (getitem kvs k)"
proof (cases "map_of kvs k")
  case None
  then show ?thesis by (simp add: getitem_def)
next
  case (Some v)
  assume "distinct_keys (PDict kvs)"
  moreover have "(k, v) \<in> set kvs" using Some by (rule map_of_SomeD)
  ultimately show ?thesis
    using Some by (force simp: getitem_def list_all_iff)
qed

lemma distinct_keys_canonicalize: "distinct_keys x \<Longrightarrow> distinct_keys (canonicalize x)"
proof (induction x rule: canonicalize.induct)
  case (1 kvs)
  have "distinct (sort (map fst kvs))"
    using "1.prems" by simp
  moreover have "distinct_keys (canonicalize (getitem kvs k))" if "k \<in> set (sort (map fst kvs))" for k
    using "1.IH" [OF that] distinct_keys_getitem [OF "1.prems"] by simp
  ultimately show ?case
    by (simp add: list_all_iff comp_def)
next
  case (2 xs)
  then show ?case
    by (auto simp: list_all_iff)
qed simp_all

lemma json_equivalent_refl: "distinct_keys a \<Longrightarrow> json_equivalent a a"
  by (simp add: json_equivalent_def py_eq_refl distinct_keys_canonicalize)

lemma same_keys:
  assumes "distinct (map fst kvs)" and "distinct (map fst kws)" and "length kvs = length kws"
    and "list_all (\<lambda>(k, v). case map_of kws k of None \<Rightarrow> False | Some w \<Rightarrow> R v w) kvs"
  shows "set (map fst kvs) = set (map fst kws)"
proof -
  have sub: "set (map fst kvs) \<subseteq> set (map fst kws)"
  proof
    fix k assume "k \<in> set (map fst kvs)"
    then obtain v where "(k, v) \<in> set kvs" by auto
    then have "map_of kws k \<noteq> None"
      using assms(4) by (auto simp: list_all_iff split: option.splits)
    then show "k \<in> set (map fst kws)"
      by (simp add: map_of_eq_None_iff)
  qed
  have "card (set (map fst kvs)) = card (set (map fst kws))"
    using distinct_card [OF assms(1)] distinct_card [OF assms(2)] assms(3) by simp
  then show ?thesis
    using sub by (simp add: card_subset_eq)
qed

lemma py_eq_sym:
  "distinct_keys x \<Longrightarrow> distinct_keys y \<Longrightarrow> py_eq x y \<Longrightarrow> py_eq y x"
proof (induction x y rule: py_eq.induct)
  case (6 xs y)
  then obtain ys where y: "y = PList ys" and l: "list_all2 py_eq xs ys"
    by (cases y) simp_all
  have "list_all2 py_eq ys xs"
    unfolding list_all2_conv_all_nth
  proof (intro conjI allI impI)
    show "length ys = length xs" using l by (simp add: list_all2_lengthD)
  next
    fix i assume i: "i < length ys"
    then have ix: "i < length xs" using l by (simp add: list_all2_lengthD)
    have "py_eq (xs ! i) (ys ! i)" using l ix by (simp add: list_all2_nthD)
    moreover have "distinct_keys (xs ! i)" "distinct_keys (ys ! i)"
      using "6.prems" y i ix by (simp_all add: list_all_length)
    ultimately show "py_eq (ys ! i) (xs ! i)"
      using "6.IH" [OF y, of "xs ! i" "ys ! i"] i ix by simp
  qed
  then show ?case using y by simp
next
  case (7 kvs y)
  then obtain kws where y: "y = PDict kws" and len: "length kvs = length kws"
    and all: "list_all (\<lambda>(k, v). case map_of kws k of None \<Rightarrow> False | Some w \<Rightarrow> py_eq v w) kvs"
    by (cases y) simp_all
  have dv: "distinct (map fst kvs)" and dw: "distinct (map fst kws)"
    using "7.prems" y by simp_all
  have keys: "set (map fst kvs) = set (map fst kws)"
    by (rule same_keys [OF dv dw len all])
  have "case map_of kvs k of None \<Rightarrow> False | Some v \<Rightarrow> py_eq w v" if kw: "(k, w) \<in> set kws" for k w
  proof -
    have "k \<in> set (map fst kvs)" using keys kw by force
    then obtain v where kv: "(k, v) \<in> set kvs" by auto
    have mv: "map_of kvs k = Some v" using dv kv by simp
    have mw: "map_of kws k = Some w" using dw kw by simp
    have e: "py_eq v w"
      using all kv mw by (auto simp: list_all_iff)
    have "distinct_keys v" "distinct_keys w"
      using "7.prems" y kv kw by (auto simp: list_all_iff)
    then have "py_eq w v"
      using "7.IH" [OF y kv refl mw] e by simp
    then show ?thesis using mv by simp
  qed
  then show ?case
    using y len by (auto simp: list_all_iff)
qed (auto simp: bool_int_def split: doc.splits)

lemma json_equivalent_sym:
  "distinct_keys a \<Longrightarrow> distinct_keys b \<Longrightarrow> json_equivalent a b = json_equivalent b a"
  unfolding json_equivalent_def
  using py_eq_sym [of "canonicalize a" "canonicalize b"] py_eq_sym [of "canonicalize b" "canonicalize a"]
    distinct_keys_canonicalize by blast

lemma rekeyed_sorted_keys:
  assumes "distinct (map fst kvs)" and "distinct (map fst kws)" and "length kvs = length kws"
    and "list_all (\<lambda>(k, v). case map_of kws k of None \<Rightarrow> False | Some w \<Rightarrow> R v w) kvs"
  shows "sort (map fst kvs) = sort (map fst kws)"
proof -
  have "mset (map fst kvs) = mset (map fst kws)"
    using same_keys [OF assms] set_eq_iff_mset_eq_distinct [OF assms(1) assms(2)] by blast
  then have "mset (sort (map fst kws)) = mset (map fst kvs)"
    by simp
  then show ?thesis
    by (rule properties_for_sort) simp
qed

lemma sort_key_fst_tabulate:
  assumes "distinct (map fst kvs)"
  shows "sort_key fst kvs = map (\<lambda>k. (k, getitem kvs k)) (sort (map fst kvs))"
proof (rule map_sorted_distinct_set_unique [where f = fst])
  let ?r = "map (\<lambda>k. (k, getitem kvs k)) (sort (map fst kvs))"
  have item: "(k, getitem kvs k) = (k, v)" if "(k, v) \<in> set kvs" for k v
    using assms that by (simp add: getitem_def)
  have r: "set ?r = set kvs"
  proof
    show "set ?r \<subseteq> set kvs"
      using item by auto
    show "set kvs \<subseteq> set ?r"
    proof
      fix kv assume "kv \<in> set kvs"
      then have "(fst kv, snd kv) \<in> set kvs" by simp
      from item [OF this] have "(fst kv, getitem kvs (fst kv)) = kv" by simp
      moreover have "fst kv \<in> set (sort (map fst kvs))" using \<open>kv \<in> set kvs\<close> by simp
      ultimately show "kv \<in> set ?r" by force
    qed
  qed
  have inj: "inj_on fst (set kvs)"
    using assms by (simp add: distinct_map)
  show "inj_on fst (set (sort_key fst kvs) \<union> set ?r)"
    using inj r by simp
  show "sorted (map fst (sort_key fst kvs))"
    by simp
  show "distinct (map fst (sort_key fst kvs))"
    using assms inj by (simp add: distinct_map)
  have m: "map fst ?r = sort (map fst kvs)"
    by (simp add: comp_def)
  show "sorted (map fst ?r)"
    unfolding m by simp
  show "distinct (map fst ?r)"
    unfolding m using assms by simp
  show "set (sort_key fst kvs) = set ?r"
    using r by simp
qed

lemma insort_key_list_all2:
  assumes "list_all2 R xs ys" and "map f xs = map g ys" and "R x y" and "f x = g y"
  shows "list_all2 R (insort_key f x xs) (insort_key g y ys)
       \<and> map f (insort_key f x xs) = map g (insort_key g y ys)"
  using assms(1) assms(2)
  by (induction xs ys rule: list_all2_induct) (use assms(3) assms(4) in auto)

lemma sort_key_list_all2:
  assumes "list_all2 R xs ys" and "map f xs = map g ys"
  shows "list_all2 R (sort_key f xs) (sort_key g ys)
       \<and> map f (sort_key f xs) = map g (sort_key g ys)"
  using assms
proof (induction xs ys rule: list_all2_induct)
  case Nil
  then show ?case by simp
next
  case (Cons x xs y ys)
  then have "list_all2 R (sort_key f xs) (sort_key g ys)
      \<and> map f (sort_key f xs) = map g (sort_key g ys)"
    by simp
  then show ?case
    using insort_key_list_all2 [of R "sort_key f xs" "sort_key g ys" f g x y] Cons.hyps(1) Cons.prems
    by simp
qed

lemma list_all2_map_eq: "list_all2 (\<lambda>x y. h x = h y) xs ys \<Longrightarrow> map h xs = map h ys"
  by (induction xs ys rule: list_all2_induct) simp_all

lemma list_all2_pointwise:
  assumes "list_all2 R xs ys"
    and "\<And>x y. x \<in> set xs \<Longrightarrow> y \<in> set ys \<Longrightarrow> R x y \<Longrightarrow> S x y"
  shows "list_all2 S xs ys"
  using assms by (induction xs ys rule: list_all2_induct) auto

lemma dumps_items_cong:
  assumes "\<And>k. k \<in> set ks \<Longrightarrow> json_dumps (f k) = json_dumps (g k)"
  shows "map (\<lambda>(k, v). case json_dumps v of None \<Rightarrow> None
                                | Some s \<Rightarrow> Some (encode_str k @ '': '' @ s))
             (map (\<lambda>k. (k, f k)) ks)
       = map (\<lambda>(k, v). case json_dumps v of None \<Rightarrow> None
                                | Some s \<Rightarrow> Some (encode_str k @ '': '' @ s))
             (map (\<lambda>k. (k, g k)) ks)"
  using assms by (induction ks) simp_all

lemma rekeyed_json_dumps:
  "rekeyed x y \<Longrightarrow> distinct_keys x \<Longrightarrow> distinct_keys y \<Longrightarrow> json_dumps x = json_dumps y"
proof (induction x y rule: rekeyed.induct)
  case (1 xs y)
  then obtain ys where y: "y = PList ys" and l: "list_all2 rekeyed xs ys"
    by (cases y) simp_all
  have "list_all2 (\<lambda>a b. json_dumps a = json_dumps b) xs ys"
  proof (rule list_all2_pointwise [OF l])
    fix a b assume "a \<in> set xs" "b \<in> set ys" "rekeyed a b"
    then show "json_dumps a = json_dumps b"
      using "1.IH" [OF y] "1.prems" y by (simp add: list_all_iff)
  qed
  then have "map json_dumps xs = map json_dumps ys"
    by (rule list_all2_map_eq)
  then show ?case using y by simp
next
  case (2 kvs y)
  then obtain kws where y: "y = PDict kws" and len: "length kvs = length kws"
    and all: "list_all (\<lambda>(k, v). case map_of kws k of None \<Rightarrow> False | Some w \<Rightarrow> rekeyed v w) kvs"
    by (cases y) simp_all
  have dv: "distinct (map fst kvs)" and dw: "distinct (map fst kws)"
    using "2.prems" y by simp_all
  have keys: "sort (map fst kvs) = sort (map fst kws)"
    by (rule rekeyed_sorted_keys [OF dv dw len all])
  have val: "json_dumps (getitem kvs k) = json_dumps (getitem kws k)"
    if "k \<in> set (sort (map fst kvs))" for k
  proof -
    from that obtain v where kv: "(k, v) \<in> set kvs" by auto
    then have mv: "map_of kvs k = Some v" using dv by simp
    from all kv obtain w where mw: "map_of kws k = Some w" and r: "rekeyed v w"
      by (auto simp: list_all_iff split: option.splits)
    have "(k, w) \<in> set kws" using mw by (rule map_of_SomeD)
    then have "distinct_keys v" "distinct_keys w"
      using "2.prems" y kv by (auto simp: list_all_iff)
    then have "json_dumps v = json_dumps w"
      using "2.IH" [OF y kv refl mw r] by simp
    then show ?thesis using mv mw by (simp add: getitem_def)
  qed
  let ?G = "\<lambda>(k, v). case json_dumps v of None \<Rightarrow> None
                               | Some s \<Rightarrow> Some (encode_str k @ '': '' @ s)"
  have items: "map ?G (map (\<lambda>k. (k, getitem kvs k)) (sort (map fst kws)))
      = map ?G (map (\<lambda>k. (k, getitem kws k)) (sort (map fst kws)))"
    by (rule dumps_items_cong) (use val keys in simp)
  have "json_dumps (PDict kvs)
      = (case those_opt (map ?G (map (\<lambda>k. (k, getitem kvs k)) (sort (map fst kws)))) of
           None \<Rightarrow> None | Some ss \<Rightarrow> Some (''{'' @ join '', '' ss @ ''}''))"
    by (simp only: json_dumps.simps sort_key_fst_tabulate [OF dv] keys)
  also have "\<dots>
      = (case those_opt (map ?G (map (\<lambda>k. (k, getitem kws k)) (sort (map fst kws)))) of
           None \<Rightarrow> None | Some ss \<Rightarrow> Some (''{'' @ join '', '' ss @ ''}''))"
    by (simp only: items)
  also have "\<dots> = json_dumps (PDict kws)"
    by (simp only: json_dumps.simps sort_key_fst_tabulate [OF dw])
  finally show ?case
    using y by simp
qed simp_all

lemma rekeyed_canonicalize:
  "rekeyed x y \<Longrightarrow> distinct_keys x \<Longrightarrow> distinct_keys y \<Longrightarrow> canonicalize x = canonicalize y"
proof (induction x y rule: rekeyed.induct)
  case (1 xs y)
  then obtain ys where y: "y = PList ys" and l: "list_all2 rekeyed xs ys"
    by (cases y) simp_all
  have dx: "list_all distinct_keys xs" and dy: "list_all distinct_keys ys"
    using "1.prems" y by simp_all
  have "list_all2 (\<lambda>a b. json_dumps a = json_dumps b) xs ys"
  proof (rule list_all2_pointwise [OF l])
    fix a b assume "a \<in> set xs" "b \<in> set ys" "rekeyed a b"
    then show "json_dumps a = json_dumps b"
      using rekeyed_json_dumps dx dy by (simp add: list_all_iff)
  qed
  then have dumps: "map json_dumps xs = map json_dumps ys"
    by (rule list_all2_map_eq)
  from dumps have "map the (map json_dumps xs) = map the (map json_dumps ys)"
    by (rule arg_cong)
  then have keys: "map (\<lambda>v. the (json_dumps v)) xs = map (\<lambda>v. the (json_dumps v)) ys"
    by (simp add: comp_def)
  have guard: "list_all (\<lambda>v. json_dumps v \<noteq> None) xs = list_all (\<lambda>v. json_dumps v \<noteq> None) ys"
  proof -
    have "list_all (\<lambda>v. json_dumps v \<noteq> None) zs = list_all (\<lambda>s. s \<noteq> None) (map json_dumps zs)"
      for zs :: "doc list"
      by (simp add: list_all_iff)
    then show ?thesis using dumps by simp
  qed
  have c: "list_all2 (\<lambda>a b. canonicalize a = canonicalize b) xs ys"
  proof (rule list_all2_pointwise [OF l])
    fix a b assume "a \<in> set xs" "b \<in> set ys" "rekeyed a b"
    then show "canonicalize a = canonicalize b"
      using "1.IH" [OF y] dx dy by (simp add: list_all_iff)
  qed
  have plain: "map canonicalize xs = map canonicalize ys"
    using c by (rule list_all2_map_eq)
  have sorted: "map canonicalize (sort_key (\<lambda>v. the (json_dumps v)) xs)
      = map canonicalize (sort_key (\<lambda>v. the (json_dumps v)) ys)"
    using sort_key_list_all2 [OF c keys] by (simp add: list_all2_map_eq)
  show ?case
    using y guard plain sorted by simp
next
  case (2 kvs y)
  then obtain kws where y: "y = PDict kws" and len: "length kvs = length kws"
    and all: "list_all (\<lambda>(k, v). case map_of kws k of None \<Rightarrow> False | Some w \<Rightarrow> rekeyed v w) kvs"
    by (cases y) simp_all
  have dv: "distinct (map fst kvs)" and dw: "distinct (map fst kws)"
    using "2.prems" y by simp_all
  have keys: "sort (map fst kvs) = sort (map fst kws)"
    by (rule rekeyed_sorted_keys [OF dv dw len all])
  have val: "canonicalize (getitem kvs k) = canonicalize (getitem kws k)"
    if "k \<in> set (sort (map fst kvs))" for k
  proof -
    from that obtain v where kv: "(k, v) \<in> set kvs" by auto
    then have mv: "map_of kvs k = Some v" using dv by simp
    from all kv obtain w where mw: "map_of kws k = Some w" and r: "rekeyed v w"
      by (auto simp: list_all_iff split: option.splits)
    have "(k, w) \<in> set kws" using mw by (rule map_of_SomeD)
    then have "distinct_keys v" "distinct_keys w"
      using "2.prems" y kv by (auto simp: list_all_iff)
    then have "canonicalize v = canonicalize w"
      using "2.IH" [OF y kv refl mw r] by simp
    then show ?thesis using mv mw by (simp add: getitem_def)
  qed
  show ?case
    unfolding y using val keys by (simp cong: map_cong)
qed simp_all

lemma json_equivalent_rekeyed:
  "rekeyed a b \<Longrightarrow> distinct_keys a \<Longrightarrow> distinct_keys b \<Longrightarrow> json_equivalent a b"
  using rekeyed_canonicalize [of a b] py_eq_refl [of "canonicalize b"]
    distinct_keys_canonicalize [of b]
  by (simp add: json_equivalent_def)

subsection \<open>The claims\<close>

text \<open>
  C2. \<^verbatim>\<open>canonicalize\<close> is not idempotent. The list \<^verbatim>\<open>[[2, 1], [1, 3]]\<close> is
  sorted by the serialisations \<^verbatim>\<open>"[2, 1]"\<close> and \<^verbatim>\<open>"[1, 3]"\<close> of its elements
  before they are canonicalized, which gives \<^verbatim>\<open>[[1, 3], [1, 2]]\<close>; a second pass sorts
  that by \<^verbatim>\<open>"[1, 3]"\<close> and \<^verbatim>\<open>"[1, 2]"\<close> and gives \<^verbatim>\<open>[[1, 2], [1, 3]]\<close>, which
  \<^verbatim>\<open>==\<close> tells apart from the first.
\<close>

theorem canonicalize_twice_differs:
  "canonicalize (PList [PList [PInt 2, PInt 1], PList [PInt 1, PInt 3]])
     = PList [PList [PInt 1, PInt 3], PList [PInt 1, PInt 2]]
   \<and> canonicalize (canonicalize (PList [PList [PInt 2, PInt 1], PList [PInt 1, PInt 3]]))
     = PList [PList [PInt 1, PInt 2], PList [PInt 1, PInt 3]]
   \<and> py_ne (canonicalize (canonicalize (PList [PList [PInt 2, PInt 1], PList [PInt 1, PInt 3]])))
        (canonicalize (PList [PList [PInt 2, PInt 1], PList [PInt 1, PInt 3]]))"
  by code_simp

text \<open>
  C3. \<^verbatim>\<open>json_equivalent\<close> tells apart two documents that differ only in the order
  of a list two levels down: \<^verbatim>\<open>{"k": [[2, 1], [1, 3]]}\<close> and
  \<^verbatim>\<open>{"k": [[1, 2], [1, 3]]}\<close>. The outer list is ordered by the serialisation of the
  inner lists as they stand, not of their canonical forms. The spec's own example,
  which differs in key order only, is equivalent.
\<close>

theorem json_equivalent_nested_list_order:
  "json_equivalent (PDict [(''k'', PList [PList [PInt 2, PInt 1], PList [PInt 1, PInt 3]])])
                   (PDict [(''k'', PList [PList [PInt 1, PInt 2], PList [PInt 1, PInt 3]])]) = False
   \<and> json_equivalent (PDict [(''a'', PInt 1), (''b'', PInt 2)])
                     (PDict [(''b'', PInt 2), (''a'', PInt 1)]) = True"
  by code_simp

text \<open>
  C10. \<^verbatim>\<open>canonicalize\<close> keeps the structure. Of a dictionary it returns a dictionary
  with the same keys, each once as before, and under every key the canonical form of
  the value that was there; of a list, a list with the same elements canonicalized,
  each as often as before (so of the same length); a scalar is returned as it is.
\<close>

theorem canonicalize_preserves_structure:
  "(\<exists>kvs'. canonicalize (PDict kvs) = PDict kvs'
        \<and> mset (map fst kvs') = mset (map fst kvs)
        \<and> (\<forall>k v. map_of kvs k = Some v \<longrightarrow> map_of kvs' k = Some (canonicalize v)))
   \<and> (\<exists>ys. canonicalize (PList xs) = PList ys \<and> mset ys = mset (map canonicalize xs))
   \<and> canonicalize PNone = PNone
   \<and> canonicalize (PBool b) = PBool b
   \<and> canonicalize (PInt i) = PInt i
   \<and> canonicalize (PStr s) = PStr s
   \<and> canonicalize (POpaque n) = POpaque n"
proof -
  let ?kvs' = "map (\<lambda>k. (k, canonicalize (getitem kvs k))) (sort (map fst kvs))"
  have keys: "map fst ?kvs' = sort (map fst kvs)"
    by (simp add: comp_def)
  have vals: "map_of ?kvs' k = Some (canonicalize v)" if "map_of kvs k = Some v" for k v
  proof -
    from that have "k \<in> set (sort (map fst kvs))"
      by (simp add: map_of_SomeD image_iff) (metis fst_conv map_of_SomeD)
    then show ?thesis
      using map_of_tabulate [of k "sort (map fst kvs)" "\<lambda>k. canonicalize (getitem kvs k)"]
        getitem_Some [OF that] by simp
  qed
  have dict: "\<exists>kvs'. canonicalize (PDict kvs) = PDict kvs'
        \<and> mset (map fst kvs') = mset (map fst kvs)
        \<and> (\<forall>k v. map_of kvs k = Some v \<longrightarrow> map_of kvs' k = Some (canonicalize v))"
    using keys vals by (intro exI [of _ ?kvs']) simp
  have list: "\<exists>ys. canonicalize (PList xs) = PList ys \<and> mset ys = mset (map canonicalize xs)"
    by simp
  show ?thesis
    using dict list by simp
qed

theorem canonicalize_preserves_structure_witness:
  "canonicalize (PDict [(''b'', PList [PInt 2, PInt 1]), (''a'', PStr ''x'')])
     = PDict [(''a'', PStr ''x''), (''b'', PList [PInt 1, PInt 2])]
   \<and> mset (map fst [(''a'', PStr ''x''), (''b'', PList [PInt 1, PInt 2])])
     = mset (map fst [(''b'', PList [PInt 2, PInt 1]), (''a'', PStr ''x'')])
   \<and> map_of [(''a'', PStr ''x''), (''b'', PList [PInt 1, PInt 2])] ''b''
     = Some (canonicalize (PList [PInt 2, PInt 1]))
   \<and> canonicalize (PList [PInt 2, PInt 1]) = PList [PInt 1, PInt 2]
   \<and> mset [PInt 1, PInt 2] = mset (map canonicalize [PInt 2, PInt 1])"
proof -
  have e1: "canonicalize (PDict [(''b'', PList [PInt 2, PInt 1]), (''a'', PStr ''x'')])
     = PDict [(''a'', PStr ''x''), (''b'', PList [PInt 1, PInt 2])]"
    by code_simp
  have e2: "canonicalize (PList [PInt 2, PInt 1]) = PList [PInt 1, PInt 2]"
    by code_simp
  have m: "map_of [(''b'', PList [PInt 2, PInt 1]), (''a'', PStr ''x'')] ''b''
     = Some (PList [PInt 2, PInt 1])"
    by simp
  from canonicalize_preserves_structure
      [of "[(''b'', PList [PInt 2, PInt 1]), (''a'', PStr ''x'')]" "[PInt 2, PInt 1]"]
  obtain kvs' ys where
    "PDict [(''a'', PStr ''x''), (''b'', PList [PInt 1, PInt 2])] = PDict kvs'"
    "mset (map fst kvs') = mset (map fst [(''b'', PList [PInt 2, PInt 1]), (''a'', PStr ''x'')])"
    "\<forall>k v. map_of [(''b'', PList [PInt 2, PInt 1]), (''a'', PStr ''x'')] k = Some v
       \<longrightarrow> map_of kvs' k = Some (canonicalize v)"
    "PList [PInt 1, PInt 2] = PList ys"
    "mset ys = mset (map canonicalize [PInt 2, PInt 1])"
    unfolding e1 e2 by blast
  with m e1 e2 show ?thesis
    by (metis doc.inject(5) doc.inject(6))
qed

section \<open>Properties of the Session Manager\<close>

lemma login_client [simp]: "login (s\<lparr>client := h\<rparr>) = login s"
  by (simp add: login_def)

lemma transport_Reply:
  "script st = Reply v # rs \<Longrightarrow>
   transport ev st = (Return v, st\<lparr>script := rs, trace := trace st @ [ev]\<rparr>)"
  by (simp add: transport_def)

lemma transport_Fail:
  "script st = Fail msg # rs \<Longrightarrow>
   transport ev st = (Raise (Exception msg), st\<lparr>script := rs, trace := trace st @ [ev]\<rparr>)"
  by (simp add: transport_def)

lemma open_connected:
  "client (SESSION st) = Some h \<Longrightarrow> TNSession_open st = (Return (), st)"
  by (simp add: TNSession_open_def)

lemma open_Return_connected:
  assumes "TNSession_open st = (Return (), st')"
  shows "client (SESSION st') \<noteq> None"
proof (cases "client (SESSION st)")
  case (Some h)
  then show ?thesis using assms by (simp add: TNSession_open_def)
next
  case None
  then show ?thesis
    using assms
    by (auto simp: TNSession_open_def bind_def transport_def set_client_def ret_def raise_def
          TNSession_close_def
        split: list.splits reply.splits if_splits prod.splits outcome.splits option.splits)
qed

lemma close_connected_Reply:
  "client (SESSION st) = Some h \<Longrightarrow> script st = Reply v # rs \<Longrightarrow>
   TNSession_close st =
     (Return (), st\<lparr>SESSION := (SESSION st)\<lparr>client := None\<rparr>, script := rs, trace := trace st @ [Exit]\<rparr>)"
  by (simp add: TNSession_close_def transport_def set_client_def)

lemma open_closed_Replies:
  "client (SESSION st) = None \<Longrightarrow> script st = Reply x # Reply y # Reply ok # rs \<Longrightarrow> truthy ok \<Longrightarrow>
   TNSession_open st =
     (Return (), st\<lparr>SESSION := (SESSION st)\<lparr>client := Some (Client (uri (SESSION st)))\<rparr>,
                     script := rs,
                     trace := trace st @ [Connect (uri (SESSION st)), Enter, login (SESSION st)]\<rparr>)"
  by (simp add: TNSession_open_def bind_def transport_def set_client_def ret_def)

lemma call_loop_Reply:
  "script st = Reply v # rs \<Longrightarrow>
   call_loop method params backoff attempt (Suc n) st =
     (Return v, st\<lparr>script := rs, trace := trace st @ [Rpc method params]\<rparr>)"
  by (simp add: call_loop.simps transport_def)

lemma call_connected_Reply:
  "client (SESSION st) = Some h \<Longrightarrow> script st = Reply v # rs \<Longrightarrow>
   TNSession_call method params retries backoff st =
     (Return v, st\<lparr>script := rs, trace := trace st @ [Rpc method params]\<rparr>)"
  by (simp add: TNSession_call_def bind_def open_connected call_loop_Reply)

lemma call_loop_nontransient:
  "script st = Fail msg # rs \<Longrightarrow> \<not> transient (lower msg) \<Longrightarrow>
   call_loop method params backoff attempt (Suc n) st =
     (Raise (Exception msg), st\<lparr>script := rs, trace := trace st @ [Rpc method params]\<rparr>)"
  by (simp add: call_loop.simps transport_def)

lemma call_nontransient:
  assumes "TNSession_open st0 = (Return (), st)"
    and "script st = Fail msg # rs"
    and "\<not> transient (lower msg)"
  shows "TNSession_call method params retries backoff st0 =
     (Raise (Exception msg), st\<lparr>script := rs, trace := trace st @ [Rpc method params]\<rparr>)"
  using assms by (simp add: TNSession_call_def bind_def call_loop_nontransient)

lemma call_loop_retry:
  assumes "client (SESSION st) = Some h"
    and "script st = Fail msg # Reply x # Reply y # Reply z # Reply ok # rs"
    and "transient (lower msg)" and "truthy ok"
  shows "call_loop method params backoff attempt (Suc n) st =
     call_loop method params backoff (attempt + 1) n
       (st\<lparr>SESSION := (SESSION st)\<lparr>client := Some (Client (uri (SESSION st)))\<rparr>,
           script := rs,
           trace := trace st @ [Rpc method params, Sleep (backoff * (attempt + 1)), Exit,
                               Connect (uri (SESSION st)), Enter, login (SESSION st)]\<rparr>)"
  using assms
  by (simp add: call_loop.simps transport_def bind_def emit_def TNSession_close_def set_client_def
      TNSession_open_def ret_def)

text \<open>
  C7. A call on an open session (\<^verbatim>\<open>open()\<close> has returned) whose first attempt
  fails with an error that has a transient marker in its lowered message, when the
  transport then lets the session close and reopen (\<^verbatim>\<open>__exit__\<close>, \<^verbatim>\<open>Client\<close>,
  \<^verbatim>\<open>__enter__\<close> and a login that returns a true value) and answers the second attempt
  with \<open>v\<close>: the call returns \<open>v\<close>, no error reaches the caller, and between the two
  attempts it has slept \<^verbatim>\<open>_backoff\<close>, closed the old client and logged in on a new
  one. This holds for every retry budget of at least one, the default.
\<close>

theorem call_retries_after_transient_error:
  assumes "TNSession_open st0 = (Return (), st)"
    and "script st = Fail msg # Reply x # Reply y # Reply z # Reply ok # Reply v # rest"
    and "transient (lower msg)"
    and "truthy ok"
  shows "TNSession_call method params (Suc retries) backoff st0 =
     (Return v,
      st\<lparr>SESSION := (SESSION st)\<lparr>client := Some (Client (uri (SESSION st)))\<rparr>,
         script := rest,
         trace := trace st @ [Rpc method params, Sleep backoff, Exit,
                             Connect (uri (SESSION st)), Enter, login (SESSION st),
                             Rpc method params]\<rparr>)"
proof -
  obtain h where h: "client (SESSION st) = Some h"
    using open_Return_connected [OF assms(1)] by auto
  have "TNSession_call method params (Suc retries) backoff st0 =
      call_loop method params backoff 0 (Suc (Suc retries)) st"
    using assms(1) by (simp add: TNSession_call_def bind_def)
  also have "\<dots> = call_loop method params backoff (0 + 1) (Suc retries)
       (st\<lparr>SESSION := (SESSION st)\<lparr>client := Some (Client (uri (SESSION st)))\<rparr>,
           script := Reply v # rest,
           trace := trace st @ [Rpc method params, Sleep (backoff * (0 + 1)), Exit,
                               Connect (uri (SESSION st)), Enter, login (SESSION st)]\<rparr>)"
    by (rule call_loop_retry [OF h assms(2) assms(3) assms(4)])
  also have "\<dots> = (Return v,
      st\<lparr>SESSION := (SESSION st)\<lparr>client := Some (Client (uri (SESSION st)))\<rparr>,
         script := rest,
         trace := trace st @ [Rpc method params, Sleep backoff, Exit,
                             Connect (uri (SESSION st)), Enter, login (SESSION st),
                             Rpc method params]\<rparr>)"
    by (simp add: call_loop_Reply)
  finally show ?thesis .
qed

theorem call_retries_after_transient_error_witness:
  "TNSession_call ''docker.status'' [] 1 1
     \<lparr>SESSION = admin_session None,
      script = [Reply PNone, Reply PNone, Reply (PBool True),
                Fail ''Connection closed by peer'',
                Reply PNone, Reply PNone, Reply PNone, Reply (PBool True),
                Reply (PDict [(''status'', PStr ''RUNNING'')])],
      trace = []\<rparr>
   = (Return (PDict [(''status'', PStr ''RUNNING'')]),
      \<lparr>SESSION = admin_session (Some (Client ''ws://nas/api/current'')),
       script = [],
       trace = [Connect ''ws://nas/api/current'', Enter,
                Rpc ''auth.login'' [PStr ''admin'', PStr ''secret''],
                Rpc ''docker.status'' [], Sleep 1, Exit,
                Connect ''ws://nas/api/current'', Enter,
                Rpc ''auth.login'' [PStr ''admin'', PStr ''secret''],
                Rpc ''docker.status'' []]\<rparr>)"
proof -
  let ?mid = "\<lparr>SESSION = admin_session (Some (Client ''ws://nas/api/current'')),
      script = [Fail ''Connection closed by peer'',
                Reply PNone, Reply PNone, Reply PNone, Reply (PBool True),
                Reply (PDict [(''status'', PStr ''RUNNING'')])],
      trace = [Connect ''ws://nas/api/current'', Enter,
               Rpc ''auth.login'' [PStr ''admin'', PStr ''secret'']]\<rparr>"
  have o: "TNSession_open
     \<lparr>SESSION = admin_session None,
      script = [Reply PNone, Reply PNone, Reply (PBool True),
                Fail ''Connection closed by peer'',
                Reply PNone, Reply PNone, Reply PNone, Reply (PBool True),
                Reply (PDict [(''status'', PStr ''RUNNING'')])],
      trace = []\<rparr> = (Return (), ?mid)"
    by code_simp
  have s: "script ?mid = Fail ''Connection closed by peer'' # Reply PNone # Reply PNone # Reply PNone
      # Reply (PBool True) # Reply (PDict [(''status'', PStr ''RUNNING'')]) # []"
    by simp
  have t: "transient (lower ''Connection closed by peer'')"
    by code_simp
  have k: "truthy (PBool True)"
    by simp
  show ?thesis
    using call_retries_after_transient_error [OF o s t k, of "''docker.status''" "[]" 0 1]
    by (simp add: login_def opt_doc_def admin_session_def)
qed

text \<open>
  C1. When every attempt of the retry budget fails with a transient error, no error
  reaches the caller: after the last attempt the loop sleeps, reconnects and ends, and
  the call returns \<^verbatim>\<open>None\<close>. Here both attempts of the default budget answer
  \<^verbatim>\<open>connection closed\<close>.
\<close>

theorem call_returns_None_when_retries_run_out:
  "TNSession_call ''docker.status'' [] 1 1
     \<lparr>SESSION = admin_session (Some (Client ''ws://nas/api/current'')),
      script = [Fail ''connection closed'',
                Reply PNone, Reply PNone, Reply PNone, Reply (PBool True),
                Fail ''connection closed'',
                Reply PNone, Reply PNone, Reply PNone, Reply (PBool True)],
      trace = []\<rparr>
   = (Return PNone,
      \<lparr>SESSION = admin_session (Some (Client ''ws://nas/api/current'')),
       script = [],
       trace = [Rpc ''docker.status'' [], Sleep 1, Exit,
                Connect ''ws://nas/api/current'', Enter,
                Rpc ''auth.login'' [PStr ''admin'', PStr ''secret''],
                Rpc ''docker.status'' [], Sleep 2, Exit,
                Connect ''ws://nas/api/current'', Enter,
                Rpc ''auth.login'' [PStr ''admin'', PStr ''secret'']]\<rparr>)"
  by code_simp

section \<open>Properties of the readiness gate and of the skip decision\<close>

lemma calls_to_append: "calls_to k (xs @ ys) = calls_to k xs @ calls_to k ys"
  by (induction k xs rule: calls_to.induct) simp_all

lemma bind_calls_to:
  assumes "\<And>st. calls_to k (trace (snd (m st))) = calls_to k (trace st)"
    and "\<And>v st. calls_to k (trace (snd (f v st))) = calls_to k (trace st)"
  shows "calls_to k (trace (snd (bind m f st))) = calls_to k (trace st)"
proof (cases "m st")
  case (Pair r st')
  have eq: "calls_to k (trace st') = calls_to k (trace st)"
    using assms(1) [of st] Pair by simp
  show ?thesis
    using Pair eq assms(2) [of _ st'] by (cases r) (simp_all add: bind_def)
qed

lemma transport_calls_to:
  "calls_to k (trace (snd (transport ev st))) = calls_to k (trace st) @ calls_to k [ev]"
  by (simp add: transport_def calls_to_append split: list.splits reply.splits)

lemma emit_calls_to:
  "calls_to k (trace (snd (emit ev st))) = calls_to k (trace st) @ calls_to k [ev]"
  by (simp add: emit_def calls_to_append)

lemma set_client_trace [simp]: "trace (snd (set_client h st)) = trace st"
  by (simp add: set_client_def)

lemma ret_trace [simp]: "trace (snd (ret v st)) = trace st"
  by (simp add: ret_def)

lemma raise_trace [simp]: "trace (snd (raise e st)) = trace st"
  by (simp add: raise_def)

lemma close_calls_to:
  "calls_to k (trace (snd (TNSession_close st))) = calls_to k (trace st)"
proof (cases "client (SESSION st)")
  case None
  then show ?thesis by (simp add: TNSession_close_def)
next
  case (Some h)
  obtain r st' where t: "transport Exit st = (r, st')" by (cases "transport Exit st")
  then have "calls_to k (trace st') = calls_to k (trace st)"
    using transport_calls_to [of k Exit st] by simp
  then show ?thesis
    using Some t by (cases r) (simp_all add: TNSession_close_def set_client_def)
qed

lemma login_calls_to:
  "k \<noteq> ''auth.login'' \<Longrightarrow> k \<noteq> ''auth.login_with_api_key'' \<Longrightarrow> calls_to k [login s] = []"
  by (simp add: login_def)

lemma open_calls_to:
  assumes "k \<noteq> ''auth.login''" and "k \<noteq> ''auth.login_with_api_key''"
  shows "calls_to k (trace (snd (TNSession_open st))) = calls_to k (trace st)"
proof (cases "client (SESSION st)")
  case (Some h)
  then show ?thesis by (simp add: TNSession_open_def)
next
  case None
  then show ?thesis
    unfolding TNSession_open_def
    by (simp add: bind_calls_to transport_calls_to close_calls_to login_calls_to assms)
qed

lemma call_loop_calls_to:
  assumes "k \<noteq> method" and "k \<noteq> ''auth.login''" and "k \<noteq> ''auth.login_with_api_key''"
  shows "calls_to k (trace (snd (call_loop method params backoff attempt n st)))
    = calls_to k (trace st)"
proof (induction n arbitrary: attempt st)
  case 0
  then show ?case by (simp add: call_loop.simps)
next
  case (Suc n)
  obtain r st' where t: "transport (Rpc method params) st = (r, st')"
    by (cases "transport (Rpc method params) st")
  then have eq: "calls_to k (trace st') = calls_to k (trace st)"
    using transport_calls_to [of k "Rpc method params" st] assms(1) by simp
  have retry: "calls_to k (trace (snd (
      bind (emit (Sleep (backoff * (attempt + 1)))) (\<lambda>_.
      bind TNSession_close (\<lambda>_.
      bind TNSession_open (\<lambda>_.
      call_loop method params backoff (attempt + 1) n))) st'))) = calls_to k (trace st')"
    by (intro bind_calls_to)
      (simp_all add: emit_calls_to close_calls_to open_calls_to assms Suc.IH)
  show ?case
    using t eq retry by (auto simp: call_loop.simps Let_def split: outcome.splits exn.splits)
qed

lemma call_calls_to:
  assumes "k \<noteq> method" and "k \<noteq> ''auth.login''" and "k \<noteq> ''auth.login_with_api_key''"
  shows "calls_to k (trace (snd (TNSession_call method params retries backoff st)))
    = calls_to k (trace st)"
  unfolding TNSession_call_def
  by (intro bind_calls_to) (simp_all add: open_calls_to call_loop_calls_to assms)

lemma py_get_dict: "py_get (PDict kvs) k st = (Return (getitem kvs k), st)"
  by (simp add: py_get_def ret_def)

text \<open>
  C9. The gate. When \<^verbatim>\<open>SESSION.open()\<close> has returned and the query of
  \<^verbatim>\<open>docker.status\<close> returns a mapping: if its status is \<^verbatim>\<open>RUNNING\<close> the run goes
  on to the definitions, in the state the query left; if it is not, the run ends there
  with \<^verbatim>\<open>SystemExit\<close>, with a message of its own for \<^verbatim>\<open>UNCONFIGURED\<close> and one that
  shows the status otherwise. Up to that point no \<^verbatim>\<open>app.query\<close>, \<^verbatim>\<open>app.create\<close>
  or \<^verbatim>\<open>app.update\<close> has been sent, whatever the directory holds.
\<close>

theorem readiness_gate:
  assumes "TNSession_open st = (Return (), st1)"
    and "TNSession_call ''docker.status'' [] 1 1 st1 = (Return (PDict kvs), st2)"
  shows "(if py_eq (getitem kvs ''status'') (PStr ''RUNNING'')
          then main compose_dir st = deploy_all (sort_key path_name compose_dir) st2
          else main compose_dir st =
                 (Raise (SystemExit (if py_eq (getitem kvs ''status'') (PStr ''UNCONFIGURED'')
                                     then DockerUnconfigured
                                     else DockerNotHealthy (getitem kvs ''status''))), st2))
         \<and> calls_to ''app.query'' (trace st2) = calls_to ''app.query'' (trace st)
         \<and> calls_to ''app.create'' (trace st2) = calls_to ''app.create'' (trace st)
         \<and> calls_to ''app.update'' (trace st2) = calls_to ''app.update'' (trace st)"
proof -
  have run: "main compose_dir st =
      (if py_eq (getitem kvs ''status'') (PStr ''RUNNING'')
       then deploy_all (sort_key path_name compose_dir) st2
       else (Raise (SystemExit (if py_eq (getitem kvs ''status'') (PStr ''UNCONFIGURED'')
                                then DockerUnconfigured
                                else DockerNotHealthy (getitem kvs ''status''))), st2))"
    using assms
    by (simp add: main_def validate_truenas_def bind_def py_get_dict ret_def raise_def)
  have frame: "calls_to k (trace st2) = calls_to k (trace st)"
    if "k \<noteq> ''docker.status''" and "k \<noteq> ''auth.login''" and "k \<noteq> ''auth.login_with_api_key''"
    for k
  proof -
    have "calls_to k (trace st1) = calls_to k (trace st)"
      using open_calls_to [OF that(2) that(3), of st] assms(1) by simp
    moreover have "calls_to k (trace st2) = calls_to k (trace st1)"
      using call_calls_to [OF that, of "[]" 1 1 st1] assms(2) by simp
    ultimately show ?thesis by simp
  qed
  show ?thesis
    using run frame [of "''app.query''"] frame [of "''app.create''"] frame [of "''app.update''"]
    by simp
qed

theorem readiness_gate_witness:
  "main [web_yaml]
     \<lparr>SESSION = admin_session None,
      script = [Reply PNone, Reply PNone, Reply (PBool True),
                Reply (PDict [(''status'', PStr ''UNCONFIGURED'')]), Reply (PList [])],
      trace = []\<rparr>
   = (Raise (SystemExit DockerUnconfigured),
      \<lparr>SESSION = admin_session (Some (Client ''ws://nas/api/current'')),
       script = [Reply (PList [])],
       trace = [Connect ''ws://nas/api/current'', Enter,
                Rpc ''auth.login'' [PStr ''admin'', PStr ''secret''],
                Rpc ''docker.status'' []]\<rparr>)
   \<and> calls_to ''app.query'' [Connect ''ws://nas/api/current'', Enter,
                Rpc ''auth.login'' [PStr ''admin'', PStr ''secret''],
                Rpc ''docker.status'' []] = []"
proof -
  let ?st = "\<lparr>SESSION = admin_session None,
      script = [Reply PNone, Reply PNone, Reply (PBool True),
                Reply (PDict [(''status'', PStr ''UNCONFIGURED'')]), Reply (PList [])],
      trace = []\<rparr>"
  let ?st1 = "\<lparr>SESSION = admin_session (Some (Client ''ws://nas/api/current'')),
      script = [Reply (PDict [(''status'', PStr ''UNCONFIGURED'')]), Reply (PList [])],
      trace = [Connect ''ws://nas/api/current'', Enter,
               Rpc ''auth.login'' [PStr ''admin'', PStr ''secret'']]\<rparr>"
  let ?st2 = "\<lparr>SESSION = admin_session (Some (Client ''ws://nas/api/current'')),
       script = [Reply (PList [])],
       trace = [Connect ''ws://nas/api/current'', Enter,
                Rpc ''auth.login'' [PStr ''admin'', PStr ''secret''],
                Rpc ''docker.status'' []]\<rparr>"
  have o: "TNSession_open ?st = (Return (), ?st1)"
    by code_simp
  have c: "TNSession_call ''docker.status'' [] 1 1 ?st1
      = (Return (PDict [(''status'', PStr ''UNCONFIGURED'')]), ?st2)"
    by code_simp
  have g: "getitem [(''status'', PStr ''UNCONFIGURED'')] ''status'' = PStr ''UNCONFIGURED''"
    by (simp add: getitem_def)
  show ?thesis
    using readiness_gate [OF o c, of "[web_yaml]"] by (simp add: g)
qed

text \<open>
  C5. For a definition that parses to a mapping, when \<^verbatim>\<open>app.query\<close> returns a true
  value (the application exists) and \<^verbatim>\<open>app.config\<close> returns a configuration that
  \<^verbatim>\<open>json_equivalent\<close> finds equivalent to the parsed document, in either mode:
  \<^verbatim>\<open>deploy_app\<close> returns after printing the SKIP line, and from its start to its end
  no \<^verbatim>\<open>app.create\<close> and no \<^verbatim>\<open>app.update\<close> has been sent.
\<close>

theorem deploy_app_skips_equivalent_config:
  assumes "validate_and_normalize file_path = Inr desired"
    and "TNSession_call ''app.query'' (query_params (stem file_path)) 1 1 st = (Return found, st1)"
    and "truthy found"
    and "TNSession_call ''app.config'' [PStr (stem file_path)] 1 1 st1 = (Return current, st2)"
    and "json_equivalent desired current"
  shows "deploy_app file_path is_compose st
           = (Return (), st2\<lparr>trace := trace st2 @ [Print (Skip (stem file_path))]\<rparr>)
         \<and> calls_to ''app.create'' (trace st2 @ [Print (Skip (stem file_path))])
           = calls_to ''app.create'' (trace st)
         \<and> calls_to ''app.update'' (trace st2 @ [Print (Skip (stem file_path))])
           = calls_to ''app.update'' (trace st)"
proof -
  have run: "deploy_app file_path is_compose st
      = (Return (), st2\<lparr>trace := trace st2 @ [Print (Skip (stem file_path))]\<rparr>)"
    using assms by (simp add: deploy_app_def bind_def lift_def emit_def)
  have frame: "calls_to k (trace st2) = calls_to k (trace st)"
    if "k \<noteq> ''app.query''" and "k \<noteq> ''app.config''"
      and "k \<noteq> ''auth.login''" and "k \<noteq> ''auth.login_with_api_key''" for k
  proof -
    have "calls_to k (trace st1) = calls_to k (trace st)"
      using call_calls_to [OF that(1) that(3) that(4), of "query_params (stem file_path)" 1 1 st]
        assms(2) by simp
    moreover have "calls_to k (trace st2) = calls_to k (trace st1)"
      using call_calls_to [OF that(2) that(3) that(4), of "[PStr (stem file_path)]" 1 1 st1]
        assms(4) by simp
    ultimately show ?thesis by simp
  qed
  show ?thesis
    using run frame [of "''app.create''"] frame [of "''app.update''"]
    by (simp add: calls_to_append)
qed

theorem deploy_app_skips_equivalent_config_witness:
  "deploy_app web_yaml True
     \<lparr>SESSION = admin_session (Some (Client ''ws://nas/api/current'')),
      script = [Reply (PList [PDict [(''name'', PStr ''web'')]]),
                Reply (PDict [(''services'',
                   PDict [(''web'', PDict [(''image'', PStr ''nginx'')])])])],
      trace = []\<rparr>
   = (Return (),
      \<lparr>SESSION = admin_session (Some (Client ''ws://nas/api/current'')),
       script = [],
       trace = [Rpc ''app.query'' (query_params ''web''), Rpc ''app.config'' [PStr ''web''],
                Print (Skip ''web'')]\<rparr>)
   \<and> calls_to ''app.create'' [Rpc ''app.query'' (query_params ''web''),
        Rpc ''app.config'' [PStr ''web''], Print (Skip ''web'')] = []
   \<and> calls_to ''app.update'' [Rpc ''app.query'' (query_params ''web''),
        Rpc ''app.config'' [PStr ''web''], Print (Skip ''web'')] = []"
proof -
  let ?cfg = "PDict [(''services'', PDict [(''web'', PDict [(''image'', PStr ''nginx'')])])]"
  let ?st = "\<lparr>SESSION = admin_session (Some (Client ''ws://nas/api/current'')),
      script = [Reply (PList [PDict [(''name'', PStr ''web'')]]), Reply ?cfg],
      trace = []\<rparr>"
  let ?st1 = "\<lparr>SESSION = admin_session (Some (Client ''ws://nas/api/current'')),
      script = [Reply ?cfg],
      trace = [Rpc ''app.query'' (query_params ''web'')]\<rparr>"
  let ?st2 = "\<lparr>SESSION = admin_session (Some (Client ''ws://nas/api/current'')),
      script = [],
      trace = [Rpc ''app.query'' (query_params ''web''), Rpc ''app.config'' [PStr ''web'']]\<rparr>"
  have v: "validate_and_normalize web_yaml = Inr ?cfg"
    by code_simp
  have s: "stem web_yaml = ''web''"
    by (simp add: web_yaml_def)
  have q: "TNSession_call ''app.query'' (query_params (stem web_yaml)) 1 1 ?st
      = (Return (PList [PDict [(''name'', PStr ''web'')]]), ?st1)"
    unfolding s by code_simp
  have t: "truthy (PList [PDict [(''name'', PStr ''web'')]])"
    by simp
  have c: "TNSession_call ''app.config'' [PStr (stem web_yaml)] 1 1 ?st1 = (Return ?cfg, ?st2)"
    unfolding s by code_simp
  have e: "json_equivalent ?cfg ?cfg"
    by code_simp
  show ?thesis
    using deploy_app_skips_equivalent_config [OF v q t c e, of True] by (simp add: s)
qed

section \<open>Properties of the Job Watcher\<close>

lemma status_lines_append: "status_lines (xs @ ys) = status_lines xs @ status_lines ys"
  by (induction xs rule: status_lines.induct) simp_all

lemma py_get_field: "is_dict d \<Longrightarrow> py_get d k st = (Return (field d k), st)"
  by (cases d) (simp_all add: is_dict_def py_get_def field_def ret_def)

lemma job_progress_dict:
  assumes "job_record j"
  shows "is_dict (job_progress j)"
  using assms by (auto simp: job_record_def job_progress_def is_dict_def)

lemma watch_body_record:
  assumes "job_record j"
  shows "watch_body job_id last_percent last_desc last_excerpt j st =
     (Return (if terminal (job_state j) then Done j
              else Again (if py_ne (job_percent j) last_percent \<or> py_ne (job_desc j) last_desc
                          then job_percent j else last_percent)
                         (if py_ne (job_percent j) last_percent \<or> py_ne (job_desc j) last_desc
                          then job_desc j else last_desc)
                         (if truthy (job_logs j) \<and> py_ne (job_logs j) last_excerpt
                          then job_logs j else last_excerpt)),
      st\<lparr>trace := trace st @ round_events job_id last_percent last_desc last_excerpt j\<rparr>)"
proof -
  have d: "is_dict j"
    using assms by (simp add: job_record_def)
  have g: "py_get j k s = (Return (field j k), s)" for k s
    using d by (rule py_get_field)
  have gp: "py_get (if truthy (field j ''progress'') then field j ''progress'' else PDict []) k s
      = (Return (field (job_progress j) k), s)" for k s
    using py_get_field [OF job_progress_dict [OF assms], of k s] by (simp add: job_progress_def)
  have ds: "(truthy (job_desc j) \<and> \<not> is_str (job_desc j)) = False"
    using assms by (auto simp: job_record_def)
  have pct: "field (job_progress j) ''percent'' = job_percent j"
    by (simp add: job_percent_def)
  have desc: "field (job_progress j) ''description'' = job_desc j"
    by (simp add: job_desc_def)
  have st: "field j ''state'' = job_state j"
    by (simp add: job_state_def)
  have lg: "field j ''logs_excerpt'' = job_logs j"
    by (simp add: job_logs_def)
  have er: "(if truthy (field j ''error'') then ret (field j ''error'')
             else py_get j ''result_encoding_error'') s = (Return (job_error j), s)" for s
    by (simp add: job_error_def g ret_def)
  show ?thesis
    unfolding watch_body_def
    by (simp add: bind_def g gp er pct desc st lg ds ret_def emit_def round_events_def summary_def)
qed

lemma status_lines_round:
  "status_lines (round_events job_id lp ld le j) =
     (if py_ne (job_percent j) lp \<or> py_ne (job_desc j) ld
      then [JobStatus job_id (job_state j) (job_percent j) (job_desc j)] else [])"
  by (simp add: round_events_def summary_def)

lemma calls_to_round: "calls_to k (round_events job_id lp ld le j) = []"
  by (simp add: round_events_def)

lemma last_round:
  "terminal (job_state j) \<Longrightarrow> last (round_events job_id lp ld le j) = Print (summary job_id j)"
  by (simp add: round_events_def)

lemma watch_loop_round:
  assumes "client (SESSION st) = Some h"
    and "script st = Reply j # rs"
    and "job_record j"
  shows "watch_loop job_id poll raw lp ld le st =
     (if terminal (job_state j)
      then (Return j,
            st\<lparr>script := rs,
               trace := trace st @ Rpc ''core.get_jobs'' (get_jobs_params job_id raw)
                          # round_events job_id lp ld le j\<rparr>)
      else watch_loop job_id poll raw
             (if py_ne (job_percent j) lp \<or> py_ne (job_desc j) ld then job_percent j else lp)
             (if py_ne (job_percent j) lp \<or> py_ne (job_desc j) ld then job_desc j else ld)
             (if truthy (job_logs j) \<and> py_ne (job_logs j) le then job_logs j else le)
             (st\<lparr>script := rs,
                 trace := trace st @ Rpc ''core.get_jobs'' (get_jobs_params job_id raw)
                            # round_events job_id lp ld le j @ [Sleep poll]\<rparr>))"
  by (subst watch_loop.simps)
    (simp add: call_connected_Reply [OF assms(1) assms(2)] watch_body_record [OF assms(3)] emit_def)

lemma watch_loop_run:
  assumes "client (SESSION st) = Some h"
    and "script st = map Reply js @ Reply fin # rest"
    and "list_all running js"
    and "job_record fin"
    and "terminal (job_state fin)"
  shows "\<exists>evs. watch_loop job_id poll raw lp ld le st
               = (Return fin, st\<lparr>script := rest, trace := trace st @ evs\<rparr>)
      \<and> status_lines evs = spec_status_lines job_id lp ld (js @ [fin])
      \<and> calls_to ''core.get_jobs'' evs = replicate (Suc (length js)) (get_jobs_params job_id raw)
      \<and> (\<forall>k. k \<noteq> ''core.get_jobs'' \<longrightarrow> calls_to k evs = [])
      \<and> last evs = Print (summary job_id fin)"
  using assms(1) assms(2) assms(3)
proof (induction js arbitrary: st lp ld le)
  case Nil
  let ?evs = "Rpc ''core.get_jobs'' (get_jobs_params job_id raw) # round_events job_id lp ld le fin"
  have s: "script st = Reply fin # rest"
    using Nil.prems(2) by simp
  have run: "watch_loop job_id poll raw lp ld le st
      = (Return fin, st\<lparr>script := rest, trace := trace st @ ?evs\<rparr>)"
    using watch_loop_round [OF Nil.prems(1) s assms(4)] assms(5) by simp
  have ne: "round_events job_id lp ld le fin \<noteq> []"
    using assms(5) by (simp add: round_events_def)
  have "status_lines ?evs = spec_status_lines job_id lp ld ([] @ [fin])"
    by (simp add: status_lines_round)
  moreover have "calls_to ''core.get_jobs'' ?evs = replicate (Suc (length ([] :: doc list))) (get_jobs_params job_id raw)"
    by (simp add: calls_to_round)
  moreover have "\<forall>k. k \<noteq> ''core.get_jobs'' \<longrightarrow> calls_to k ?evs = []"
    by (simp add: calls_to_round)
  moreover have "last ?evs = Print (summary job_id fin)"
    using ne last_round [OF assms(5)] by simp
  ultimately show ?case
    using run by blast
next
  case (Cons j js)
  let ?lp = "if py_ne (job_percent j) lp \<or> py_ne (job_desc j) ld then job_percent j else lp"
  let ?ld = "if py_ne (job_percent j) lp \<or> py_ne (job_desc j) ld then job_desc j else ld"
  let ?le = "if truthy (job_logs j) \<and> py_ne (job_logs j) le then job_logs j else le"
  let ?pre = "Rpc ''core.get_jobs'' (get_jobs_params job_id raw)
                # round_events job_id lp ld le j @ [Sleep poll]"
  let ?st = "st\<lparr>script := map Reply js @ Reply fin # rest, trace := trace st @ ?pre\<rparr>"
  have rj: "running j" and rest: "list_all running js"
    using Cons.prems(3) by simp_all
  have j: "job_record j" and nt: "\<not> terminal (job_state j)"
    using rj by (simp_all add: running_def)
  have s: "script st = Reply j # (map Reply js @ Reply fin # rest)"
    using Cons.prems(2) by simp
  have step: "watch_loop job_id poll raw lp ld le st = watch_loop job_id poll raw ?lp ?ld ?le ?st"
    using watch_loop_round [OF Cons.prems(1) s j, of job_id poll raw lp ld le] nt by simp
  have c: "client (SESSION ?st) = Some h"
    using Cons.prems(1) by simp
  have sc: "script ?st = map Reply js @ Reply fin # rest"
    by simp
  from Cons.IH [OF c sc rest, of ?lp ?ld ?le]
  obtain evs where
    run: "watch_loop job_id poll raw ?lp ?ld ?le ?st
          = (Return fin, ?st\<lparr>script := rest, trace := trace ?st @ evs\<rparr>)"
    and sl: "status_lines evs = spec_status_lines job_id ?lp ?ld (js @ [fin])"
    and polls: "calls_to ''core.get_jobs'' evs
          = replicate (Suc (length js)) (get_jobs_params job_id raw)"
    and others: "\<forall>k. k \<noteq> ''core.get_jobs'' \<longrightarrow> calls_to k evs = []"
    and final: "last evs = Print (summary job_id fin)"
    by blast
  have ne: "evs \<noteq> []"
    using polls by auto
  have "watch_loop job_id poll raw lp ld le st
      = (Return fin, st\<lparr>script := rest, trace := trace st @ (?pre @ evs)\<rparr>)"
    using step run by simp
  moreover have "status_lines (?pre @ evs) = spec_status_lines job_id lp ld ((j # js) @ [fin])"
    using sl by (simp add: status_lines_append status_lines_round)
  moreover have "calls_to ''core.get_jobs'' (?pre @ evs)
      = replicate (Suc (length (j # js))) (get_jobs_params job_id raw)"
    using polls by (simp add: calls_to_append calls_to_round)
  moreover have "\<forall>k. k \<noteq> ''core.get_jobs'' \<longrightarrow> calls_to k (?pre @ evs) = []"
    using others by (simp add: calls_to_append calls_to_round)
  moreover have "last (?pre @ evs) = Print (summary job_id fin)"
    using final ne by simp
  ultimately show ?case
    by blast
qed

text \<open>
  C4. The watcher on an open session, when the polls of the job are answered with the
  records \<open>js\<close> and then \<open>fin\<close>: every record of \<open>js\<close> a job record whose state
  is not terminal, \<open>fin\<close> a job record whose state is \<^verbatim>\<open>SUCCESS\<close>, \<^verbatim>\<open>FAILED\<close> or
  \<^verbatim>\<open>ABORTED\<close>. It returns \<open>fin\<close>, the whole record, after one poll for each record
  and no poll more (the answers after \<open>fin\<close> are left in the script). The status
  lines it has printed are those of \<open>spec_status_lines\<close>: a line for a record only
  when its percent or its description differs from the pair of the line printed last.
  The last thing it does is print the summary line of \<open>fin\<close>. With percents 0, 50,
  50, 100 and then \<^verbatim>\<open>SUCCESS\<close>, the status lines are those of 0, 50 and 100.
\<close>

theorem watch_job_prints_changes_and_returns:
  assumes "client (SESSION st) = Some h"
    and "script st = map Reply js @ Reply fin # rest"
    and "list_all running js"
    and "job_record fin"
    and "terminal (job_state fin)"
  shows "\<exists>evs. watch_job job_id poll raw st
               = (Return fin, st\<lparr>script := rest, trace := trace st @ evs\<rparr>)
      \<and> status_lines evs = spec_status_lines job_id PNone PNone (js @ [fin])
      \<and> calls_to ''core.get_jobs'' evs = replicate (Suc (length js)) (get_jobs_params job_id raw)
      \<and> last evs = Print (summary job_id fin)"
  using watch_loop_run [OF assms, of job_id poll raw PNone PNone PNone]
  unfolding watch_job_def by blast

theorem watch_job_prints_changes_and_returns_witness:
  "watch_job (PInt 7) 1 True
     \<lparr>SESSION = admin_session (Some (Client ''ws://nas/api/current'')),
      script = map Reply [job_at ''RUNNING'' 0, job_at ''RUNNING'' 50, job_at ''RUNNING'' 50,
                          job_at ''RUNNING'' 100]
               @ Reply (job_at ''SUCCESS'' 100) # [Reply (job_at ''SUCCESS'' 100)],
      trace = []\<rparr>
   = (Return (job_at ''SUCCESS'' 100),
      \<lparr>SESSION = admin_session (Some (Client ''ws://nas/api/current'')),
       script = [Reply (job_at ''SUCCESS'' 100)],
       trace = [Rpc ''core.get_jobs'' (get_jobs_params (PInt 7) True),
                Print (JobStatus (PInt 7) (PStr ''RUNNING'') (PInt 0) PNone), Sleep 1,
                Rpc ''core.get_jobs'' (get_jobs_params (PInt 7) True),
                Print (JobStatus (PInt 7) (PStr ''RUNNING'') (PInt 50) PNone), Sleep 1,
                Rpc ''core.get_jobs'' (get_jobs_params (PInt 7) True), Sleep 1,
                Rpc ''core.get_jobs'' (get_jobs_params (PInt 7) True),
                Print (JobStatus (PInt 7) (PStr ''RUNNING'') (PInt 100) PNone), Sleep 1,
                Rpc ''core.get_jobs'' (get_jobs_params (PInt 7) True),
                Print (JobFinished (PInt 7))]\<rparr>)
   \<and> spec_status_lines (PInt 7) PNone PNone
        ([job_at ''RUNNING'' 0, job_at ''RUNNING'' 50, job_at ''RUNNING'' 50,
          job_at ''RUNNING'' 100] @ [job_at ''SUCCESS'' 100])
     = [JobStatus (PInt 7) (PStr ''RUNNING'') (PInt 0) PNone,
        JobStatus (PInt 7) (PStr ''RUNNING'') (PInt 50) PNone,
        JobStatus (PInt 7) (PStr ''RUNNING'') (PInt 100) PNone]"
proof -
  let ?js = "[job_at ''RUNNING'' 0, job_at ''RUNNING'' 50, job_at ''RUNNING'' 50,
              job_at ''RUNNING'' 100]"
  let ?fin = "job_at ''SUCCESS'' 100"
  let ?st = "\<lparr>SESSION = admin_session (Some (Client ''ws://nas/api/current'')),
      script = map Reply ?js @ Reply ?fin # [Reply ?fin],
      trace = []\<rparr>"
  let ?lines = "[JobStatus (PInt 7) (PStr ''RUNNING'') (PInt 0) PNone,
        JobStatus (PInt 7) (PStr ''RUNNING'') (PInt 50) PNone,
        JobStatus (PInt 7) (PStr ''RUNNING'') (PInt 100) PNone]"
  let ?trace = "[Rpc ''core.get_jobs'' (get_jobs_params (PInt 7) True),
                Print (JobStatus (PInt 7) (PStr ''RUNNING'') (PInt 0) PNone), Sleep 1,
                Rpc ''core.get_jobs'' (get_jobs_params (PInt 7) True),
                Print (JobStatus (PInt 7) (PStr ''RUNNING'') (PInt 50) PNone), Sleep 1,
                Rpc ''core.get_jobs'' (get_jobs_params (PInt 7) True), Sleep 1,
                Rpc ''core.get_jobs'' (get_jobs_params (PInt 7) True),
                Print (JobStatus (PInt 7) (PStr ''RUNNING'') (PInt 100) PNone), Sleep 1,
                Rpc ''core.get_jobs'' (get_jobs_params (PInt 7) True),
                Print (JobFinished (PInt 7))]"
  have h: "client (SESSION ?st) = Some (Client ''ws://nas/api/current'')"
    by (simp add: admin_session_def)
  have s: "script ?st = map Reply ?js @ Reply ?fin # [Reply ?fin]"
    by simp
  have r: "list_all running ?js"
    by code_simp
  have f: "job_record ?fin"
    by code_simp
  have t: "terminal (job_state ?fin)"
    by code_simp
  have sl: "status_lines ?trace = ?lines"
    by simp
  from watch_job_prints_changes_and_returns [OF h s r f t, of "PInt 7" 1 True]
  obtain evs where
    run: "watch_job (PInt 7) 1 True ?st
          = (Return ?fin, ?st\<lparr>script := [Reply ?fin], trace := trace ?st @ evs\<rparr>)"
    and lines: "status_lines evs = spec_status_lines (PInt 7) PNone PNone (?js @ [?fin])"
    by blast
  have e: "watch_job (PInt 7) 1 True ?st
      = (Return ?fin,
         \<lparr>SESSION = admin_session (Some (Client ''ws://nas/api/current'')),
          script = [Reply ?fin], trace = ?trace\<rparr>)"
    by code_simp
  from run e have "evs = ?trace"
    by simp
  with lines sl have "spec_status_lines (PInt 7) PNone PNone (?js @ [?fin]) = ?lines"
    by simp
  with e show ?thesis
    by simp
qed

section \<open>Properties of the Reconciler\<close>

text \<open>
  C8. \<^verbatim>\<open>update_app\<close> on an open session. It sends one \<^verbatim>\<open>app.update\<close> with the
  name of the application and, in compose mode, the desired document under the key
  \<^verbatim>\<open>custom_compose_config\<close>; otherwise with \<^verbatim>\<open>{"values": {}}\<close>, whatever the
  desired document is. In both modes it takes the answer as the job id and polls that
  job up to its terminal record, whose summary line is the last thing printed; no
  second \<^verbatim>\<open>app.update\<close> is sent.
\<close>

theorem update_app_sends_payload_and_watches:
  assumes "client (SESSION st) = Some h"
    and "script st = Reply job_id # map Reply js @ Reply fin # rest"
    and "list_all running js"
    and "job_record fin"
    and "terminal (job_state fin)"
  shows "\<exists>evs. update_app app_name compose desired st
               = (Return (),
                  st\<lparr>script := rest,
                     trace := trace st
                       @ Rpc ''app.update''
                           [PStr app_name,
                            if compose then PDict [(''custom_compose_config'', desired)]
                            else PDict [(''values'', PDict [])]]
                       # evs\<rparr>)
      \<and> calls_to ''app.update'' evs = []
      \<and> calls_to ''core.get_jobs'' evs = replicate (Suc (length js)) (get_jobs_params job_id True)
      \<and> last evs = Print (summary job_id fin)"
proof -
  let ?rpc = "Rpc ''app.update''
      [PStr app_name,
       if compose then PDict [(''custom_compose_config'', desired)]
       else PDict [(''values'', PDict [])]]"
  let ?st = "st\<lparr>script := map Reply js @ Reply fin # rest, trace := trace st @ [?rpc]\<rparr>"
  have c: "client (SESSION ?st) = Some h"
    using assms(1) by simp
  have sc: "script ?st = map Reply js @ Reply fin # rest"
    by simp
  from watch_loop_run [OF c sc assms(3) assms(4) assms(5), of job_id 1 True PNone PNone PNone]
  obtain evs where
    run: "watch_job job_id 1 True ?st
          = (Return fin, ?st\<lparr>script := rest, trace := trace ?st @ evs\<rparr>)"
    and polls: "calls_to ''core.get_jobs'' evs
          = replicate (Suc (length js)) (get_jobs_params job_id True)"
    and others: "\<forall>k. k \<noteq> ''core.get_jobs'' \<longrightarrow> calls_to k evs = []"
    and final: "last evs = Print (summary job_id fin)"
    unfolding watch_job_def by blast
  have "update_app app_name compose desired st
      = (Return (), st\<lparr>script := rest, trace := trace st @ ?rpc # evs\<rparr>)"
    using run
    by (simp add: update_app_def bind_def ret_def call_connected_Reply [OF assms(1) assms(2)])
  moreover have "calls_to ''app.update'' evs = []"
    using others by simp
  ultimately show ?thesis
    using polls final by blast
qed

theorem update_app_sends_payload_and_watches_witness:
  "update_app ''web'' False (PDict [(''replicas'', PInt 3)])
     \<lparr>SESSION = admin_session (Some (Client ''ws://nas/api/current'')),
      script = Reply (PInt 7) # map Reply [job_at ''RUNNING'' 0] @ Reply (job_at ''SUCCESS'' 100) # [],
      trace = []\<rparr>
   = (Return (),
      \<lparr>SESSION = admin_session (Some (Client ''ws://nas/api/current'')),
       script = [],
       trace = [Rpc ''app.update'' [PStr ''web'', PDict [(''values'', PDict [])]],
                Rpc ''core.get_jobs'' (get_jobs_params (PInt 7) True),
                Print (JobStatus (PInt 7) (PStr ''RUNNING'') (PInt 0) PNone), Sleep 1,
                Rpc ''core.get_jobs'' (get_jobs_params (PInt 7) True),
                Print (JobStatus (PInt 7) (PStr ''SUCCESS'') (PInt 100) PNone),
                Print (JobFinished (PInt 7))]\<rparr>)
   \<and> summary (PInt 7) (job_at ''SUCCESS'' 100) = JobFinished (PInt 7)"
proof -
  let ?st = "\<lparr>SESSION = admin_session (Some (Client ''ws://nas/api/current'')),
      script = Reply (PInt 7) # map Reply [job_at ''RUNNING'' 0] @ Reply (job_at ''SUCCESS'' 100) # [],
      trace = []\<rparr>"
  let ?polls = "[Rpc ''core.get_jobs'' (get_jobs_params (PInt 7) True),
                Print (JobStatus (PInt 7) (PStr ''RUNNING'') (PInt 0) PNone), Sleep 1,
                Rpc ''core.get_jobs'' (get_jobs_params (PInt 7) True),
                Print (JobStatus (PInt 7) (PStr ''SUCCESS'') (PInt 100) PNone),
                Print (JobFinished (PInt 7))]"
  have h: "client (SESSION ?st) = Some (Client ''ws://nas/api/current'')"
    by (simp add: admin_session_def)
  have s: "script ?st
      = Reply (PInt 7) # map Reply [job_at ''RUNNING'' 0] @ Reply (job_at ''SUCCESS'' 100) # []"
    by simp
  have r: "list_all running [job_at ''RUNNING'' 0]"
    by code_simp
  have f: "job_record (job_at ''SUCCESS'' 100)"
    by code_simp
  have t: "terminal (job_state (job_at ''SUCCESS'' 100))"
    by code_simp
  from update_app_sends_payload_and_watches
    [OF h s r f t, of "''web''" False "PDict [(''replicas'', PInt 3)]"]
  obtain evs where
    run: "update_app ''web'' False (PDict [(''replicas'', PInt 3)]) ?st
          = (Return (),
             ?st\<lparr>script := [],
                  trace := trace ?st
                    @ Rpc ''app.update'' [PStr ''web'', PDict [(''values'', PDict [])]] # evs\<rparr>)"
    and final: "last evs = Print (summary (PInt 7) (job_at ''SUCCESS'' 100))"
    by auto
  have e: "update_app ''web'' False (PDict [(''replicas'', PInt 3)]) ?st
      = (Return (),
         \<lparr>SESSION = admin_session (Some (Client ''ws://nas/api/current'')),
          script = [],
          trace = Rpc ''app.update'' [PStr ''web'', PDict [(''values'', PDict [])]] # ?polls\<rparr>)"
    by code_simp
  from run e have "evs = ?polls"
    by simp
  with final have "summary (PInt 7) (job_at ''SUCCESS'' 100) = JobFinished (PInt 7)"
    by simp
  with e show ?thesis
    by simp
qed

text \<open>
  C6. \<^verbatim>\<open>deploy_app\<close> in compose mode on an open session, for a definition that
  parses to a mapping, when \<^verbatim>\<open>app.query\<close> is answered with the empty list. It prints
  the CREATE line and sends one \<^verbatim>\<open>app.create\<close>, whose payload holds the name of the
  application, \<^verbatim>\<open>custom_app\<close> as \<^verbatim>\<open>True\<close> and the parsed document under
  \<^verbatim>\<open>custom_compose_config\<close>; it takes the answer as the job id and polls that job up
  to its terminal record, whose summary line is the last thing printed. No other
  \<^verbatim>\<open>app.create\<close> and no \<^verbatim>\<open>app.update\<close> is sent.
\<close>

theorem deploy_app_creates_missing_app:
  assumes "client (SESSION st) = Some h"
    and "validate_and_normalize file_path = Inr desired"
    and "script st = Reply (PList []) # Reply job_id # map Reply js @ Reply fin # rest"
    and "list_all running js"
    and "job_record fin"
    and "terminal (job_state fin)"
  shows "\<exists>evs. deploy_app file_path True st
               = (Return (),
                  st\<lparr>script := rest,
                     trace := trace st
                       @ [Rpc ''app.query'' (query_params (stem file_path)),
                          Print (Create (stem file_path)),
                          Rpc ''app.create''
                            [PDict [(''app_name'', PStr (stem file_path)),
                                    (''custom_app'', PBool True),
                                    (''custom_compose_config'', desired)]]]
                       @ evs\<rparr>)
      \<and> calls_to ''app.create'' evs = []
      \<and> calls_to ''app.update'' evs = []
      \<and> calls_to ''core.get_jobs'' evs = replicate (Suc (length js)) (get_jobs_params job_id True)
      \<and> last evs = Print (summary job_id fin)"
proof -
  let ?query = "Rpc ''app.query'' (query_params (stem file_path))"
  let ?create = "Rpc ''app.create''
      [PDict [(''app_name'', PStr (stem file_path)), (''custom_app'', PBool True),
              (''custom_compose_config'', desired)]]"
  let ?st1 = "st\<lparr>script := Reply job_id # map Reply js @ Reply fin # rest,
                  trace := trace st @ [?query]\<rparr>"
  let ?st2 = "?st1\<lparr>trace := trace ?st1 @ [Print (Create (stem file_path))]\<rparr>"
  let ?st3 = "?st2\<lparr>script := map Reply js @ Reply fin # rest, trace := trace ?st2 @ [?create]\<rparr>"
  have q: "TNSession_call ''app.query'' (query_params (stem file_path)) 1 1 st
      = (Return (PList []), ?st1)"
    by (rule call_connected_Reply [OF assms(1) assms(3)])
  have c2: "client (SESSION ?st2) = Some h"
    using assms(1) by simp
  have s2: "script ?st2 = Reply job_id # map Reply js @ Reply fin # rest"
    by simp
  have cr: "TNSession_call ''app.create''
      [PDict [(''app_name'', PStr (stem file_path)), (''custom_app'', PBool True),
              (''custom_compose_config'', desired)]] 1 1 ?st2 = (Return job_id, ?st3)"
    by (rule call_connected_Reply [OF c2 s2])
  have c3: "client (SESSION ?st3) = Some h"
    using assms(1) by simp
  have s3: "script ?st3 = map Reply js @ Reply fin # rest"
    by simp
  from watch_loop_run [OF c3 s3 assms(4) assms(5) assms(6), of job_id 1 True PNone PNone PNone]
  obtain evs where
    run: "watch_job job_id 1 True ?st3
          = (Return fin, ?st3\<lparr>script := rest, trace := trace ?st3 @ evs\<rparr>)"
    and polls: "calls_to ''core.get_jobs'' evs
          = replicate (Suc (length js)) (get_jobs_params job_id True)"
    and others: "\<forall>k. k \<noteq> ''core.get_jobs'' \<longrightarrow> calls_to k evs = []"
    and final: "last evs = Print (summary job_id fin)"
    unfolding watch_job_def by blast
  have "deploy_app file_path True st
      = (Return (),
         st\<lparr>script := rest,
            trace := trace st @ [?query, Print (Create (stem file_path)), ?create] @ evs\<rparr>)"
    using assms(2) q cr run
    by (simp add: deploy_app_def bind_def lift_def ret_def emit_def)
  moreover have "calls_to ''app.create'' evs = []" and "calls_to ''app.update'' evs = []"
    using others by simp_all
  ultimately show ?thesis
    using polls final by blast
qed

theorem deploy_app_creates_missing_app_witness:
  "deploy_app web_yaml True
     \<lparr>SESSION = admin_session (Some (Client ''ws://nas/api/current'')),
      script = Reply (PList []) # Reply (PInt 7)
                 # map Reply [job_at ''RUNNING'' 0] @ Reply (job_at ''SUCCESS'' 100) # [],
      trace = []\<rparr>
   = (Return (),
      \<lparr>SESSION = admin_session (Some (Client ''ws://nas/api/current'')),
       script = [],
       trace = [Rpc ''app.query'' (query_params ''web''),
                Print (Create ''web''),
                Rpc ''app.create''
                  [PDict [(''app_name'', PStr ''web''), (''custom_app'', PBool True),
                          (''custom_compose_config'',
                           PDict [(''services'',
                             PDict [(''web'', PDict [(''image'', PStr ''nginx'')])])])]],
                Rpc ''core.get_jobs'' (get_jobs_params (PInt 7) True),
                Print (JobStatus (PInt 7) (PStr ''RUNNING'') (PInt 0) PNone), Sleep 1,
                Rpc ''core.get_jobs'' (get_jobs_params (PInt 7) True),
                Print (JobStatus (PInt 7) (PStr ''SUCCESS'') (PInt 100) PNone),
                Print (JobFinished (PInt 7))]\<rparr>)
   \<and> calls_to ''app.create''
        [Rpc ''core.get_jobs'' (get_jobs_params (PInt 7) True),
         Print (JobStatus (PInt 7) (PStr ''RUNNING'') (PInt 0) PNone), Sleep 1,
         Rpc ''core.get_jobs'' (get_jobs_params (PInt 7) True),
         Print (JobStatus (PInt 7) (PStr ''SUCCESS'') (PInt 100) PNone),
         Print (JobFinished (PInt 7))] = []"
proof -
  let ?cfg = "PDict [(''services'', PDict [(''web'', PDict [(''image'', PStr ''nginx'')])])]"
  let ?st = "\<lparr>SESSION = admin_session (Some (Client ''ws://nas/api/current'')),
      script = Reply (PList []) # Reply (PInt 7)
                 # map Reply [job_at ''RUNNING'' 0] @ Reply (job_at ''SUCCESS'' 100) # [],
      trace = []\<rparr>"
  let ?head = "[Rpc ''app.query'' (query_params ''web''),
                Print (Create ''web''),
                Rpc ''app.create''
                  [PDict [(''app_name'', PStr ''web''), (''custom_app'', PBool True),
                          (''custom_compose_config'', ?cfg)]]]"
  let ?polls = "[Rpc ''core.get_jobs'' (get_jobs_params (PInt 7) True),
                Print (JobStatus (PInt 7) (PStr ''RUNNING'') (PInt 0) PNone), Sleep 1,
                Rpc ''core.get_jobs'' (get_jobs_params (PInt 7) True),
                Print (JobStatus (PInt 7) (PStr ''SUCCESS'') (PInt 100) PNone),
                Print (JobFinished (PInt 7))]"
  have h: "client (SESSION ?st) = Some (Client ''ws://nas/api/current'')"
    by (simp add: admin_session_def)
  have v: "validate_and_normalize web_yaml = Inr ?cfg"
    by code_simp
  have n: "stem web_yaml = ''web''"
    by (simp add: web_yaml_def)
  have s: "script ?st = Reply (PList []) # Reply (PInt 7)
      # map Reply [job_at ''RUNNING'' 0] @ Reply (job_at ''SUCCESS'' 100) # []"
    by simp
  have r: "list_all running [job_at ''RUNNING'' 0]"
    by code_simp
  have f: "job_record (job_at ''SUCCESS'' 100)"
    by code_simp
  have t: "terminal (job_state (job_at ''SUCCESS'' 100))"
    by code_simp
  from deploy_app_creates_missing_app [OF h v s r f t]
  obtain evs where
    run: "deploy_app web_yaml True ?st
          = (Return (), ?st\<lparr>script := [], trace := trace ?st @ ?head @ evs\<rparr>)"
    and none: "calls_to ''app.create'' evs = []"
    unfolding n by auto
  have e: "deploy_app web_yaml True ?st
      = (Return (),
         \<lparr>SESSION = admin_session (Some (Client ''ws://nas/api/current'')),
          script = [], trace = ?head @ ?polls\<rparr>)"
    by code_simp
  from run e have "evs = ?polls"
    by simp
  with none have "calls_to ''app.create'' ?polls = []"
    by simp
  with e show ?thesis
    by simp
qed

end
